theory Spec2Isabelle
  imports Complex_Main
begin

section \<open>Values shared by the protocols\<close>

text \<open>
  The protocols of \<^verbatim>\<open>simulacrum/protocols\<close> and \<^verbatim>\<open>simulacrum/economy/negotiation.py\<close>
  are embedded as total functions. A Python exception is a value \<open>Inl e\<close> of a sum type
  (the message text of an exception is not modelled). Python \<^verbatim>\<open>int\<close> is \<open>int\<close>. Python
  \<^verbatim>\<open>float\<close> is idealised as \<open>real\<close>. In the voting and jury rules every comparison is
  between an integer and a quotient of integers, or between such a quotient and a
  threshold, where the idealisation and the rounded computation agree for the counts a
  run can produce; in the negotiation the prices are reals, and the worked runs miss
  the limits they are compared with by far more than rounding could account for.
  Timestamps and \<^verbatim>\<open>print\<close> output are not modelled.
\<close>

datatype error = ValueError | IndexError | ZeroDivisionError

record PsychologicalProfile =
  openness :: real
  conscientiousness :: real
  extraversion :: real
  agreeableness :: real
  neuroticism :: real

record Citizen =
  name :: string
  traits :: PsychologicalProfile

datatype ConsensusType =
  UNANIMOUS | SIMPLE_MAJORITY | SUPERMAJORITY | PLURALITY | WEIGHTED | RANKED_CHOICE

record VotingResult =
  winner :: string
  vote_counts :: "(string \<times> int) list"
  total_votes :: int
  consensus_type :: ConsensusType
  is_decisive :: bool
  tied :: bool
  confidence :: "real option"
  breakdown :: "(string \<times> string list) list"

section \<open>Dictionaries and counters\<close>

text \<open>
  A Python \<^verbatim>\<open>dict\<close> (and \<^verbatim>\<open>Counter\<close>, \<^verbatim>\<open>defaultdict\<close>) keeps its keys in insertion
  order; the model is an association list in that order with distinct keys.
  \<open>counter_incr k c\<close> is \<^verbatim>\<open>c[k] += 1\<close> on a Counter.
\<close>

type_synonym counter = "(string \<times> int) list"

fun counter_incr :: "string \<Rightarrow> counter \<Rightarrow> counter" where
  "counter_incr k [] = [(k, 1)]"
| "counter_incr k ((k', c) # rest) =
     (if k' = k then (k', c + 1) # rest else (k', c) # counter_incr k rest)"

definition Counter :: "string list \<Rightarrow> counter" where
  "Counter xs = foldl (\<lambda>c k. counter_incr k c) [] xs"

text \<open>
  \<^verbatim>\<open>Counter.most_common(n)\<close> of the standard library: the \<open>n\<close> entries with the largest
  counts, largest first, entries with equal counts in insertion order (a stable sort by
  descending count, cut after \<open>n\<close> entries).
\<close>

definition most_common :: "nat \<Rightarrow> counter \<Rightarrow> counter" where
  "most_common n c = take n (sort_key (\<lambda>kv. - snd kv) c)"

text \<open>\<^verbatim>\<open>breakdown[choice].append(agent_id)\<close> on a \<^verbatim>\<open>defaultdict(list)\<close>.\<close>

fun breakdown_append :: "string \<Rightarrow> string \<Rightarrow> (string \<times> string list) list
    \<Rightarrow> (string \<times> string list) list" where
  "breakdown_append k a [] = [(k, [a])]"
| "breakdown_append k a ((k', as) # rest) =
     (if k' = k then (k', as @ [a]) # rest else (k', as) # breakdown_append k a rest)"

text \<open>\<^verbatim>\<open>weighted_votes[choice] += weight\<close> on a \<^verbatim>\<open>defaultdict(float)\<close>.\<close>

fun weighted_add :: "string \<Rightarrow> real \<Rightarrow> (string \<times> real) list \<Rightarrow> (string \<times> real) list" where
  "weighted_add k w [] = [(k, 0 + w)]"
| "weighted_add k w ((k', v) # rest) =
     (if k' = k then (k', v + w) # rest else (k', v) # weighted_add k w rest)"

text \<open>
  \<^verbatim>\<open>max(d, key=d.get)\<close>: the first key, in insertion order, whose value is maximal;
  \<^verbatim>\<open>ValueError\<close> on an empty dictionary.
\<close>

fun max_entry :: "(string \<times> 'v::linorder) \<Rightarrow> (string \<times> 'v) list \<Rightarrow> (string \<times> 'v)" where
  "max_entry best [] = best"
| "max_entry best (e # es) = max_entry (if snd best < snd e then e else best) es"

definition max_key :: "(string \<times> 'v::linorder) list \<Rightarrow> error + string" where
  "max_key d = (case d of [] \<Rightarrow> Inl ValueError | e # es \<Rightarrow> Inr (fst (max_entry e es)))"

text \<open>\<^verbatim>\<open>int(x)\<close> on a float: truncation towards zero.\<close>

definition py_int :: "real \<Rightarrow> int" where
  "py_int x = (if 0 \<le> x then \<lfloor>x\<rfloor> else \<lceil>x\<rceil>)"

section \<open>The consensus calculator (voting.py)\<close>

text \<open>
  The dictionary \<^verbatim>\<open>vote_data\<close> that \<^verbatim>\<open>_parse_vote\<close> builds and \<^verbatim>\<open>_collect_votes\<close>
  completes with the agent.
\<close>

record parsed_vote =
  choice :: string
  reasoning :: "string option"
  raw_response :: string

record vote_data = parsed_vote +
  agent_id :: string
  agent :: Citizen

text \<open>The fields of \<^verbatim>\<open>VotingProtocol\<close> (\<^verbatim>\<open>self\<close>).\<close>

record VotingProtocol =
  self_consensus_type :: ConsensusType
  allow_abstention :: bool
  require_reasoning :: bool

definition top_two_tied :: "counter \<Rightarrow> bool" where
  "top_two_tied vc =
     (let top_two = most_common 2 vc
      in length top_two > 1 \<and> snd (top_two ! 0) = snd (top_two ! 1))"

definition simple_majority :: "counter \<Rightarrow> int \<Rightarrow> (string \<times> string list) list
    \<Rightarrow> error + VotingResult" where
  "simple_majority vc total_v bd =
     (case most_common 1 vc of
        [] \<Rightarrow> Inl IndexError
      | (w, max_votes) # _ \<Rightarrow>
          (let required = real_of_int total_v / 2;
               decisive = (real_of_int max_votes > required);
               is_tied = top_two_tied vc
           in if \<not> is_tied \<and> total_v = 0 then Inl ZeroDivisionError
              else Inr \<lparr>winner = w, vote_counts = vc, total_votes = total_v,
                        consensus_type = SIMPLE_MAJORITY,
                        is_decisive = (decisive \<and> \<not> is_tied),
                        tied = is_tied,
                        confidence = Some (if \<not> is_tied
                                           then real_of_int max_votes / real_of_int total_v
                                           else 1 / 2),
                        breakdown = bd\<rparr>))"

definition supermajority :: "counter \<Rightarrow> int \<Rightarrow> (string \<times> string list) list
    \<Rightarrow> error + VotingResult" where
  "supermajority vc total_v bd =
     (case most_common 1 vc of
        [] \<Rightarrow> Inl IndexError
      | (w, max_votes) # _ \<Rightarrow>
          (let required = real_of_int (2 * total_v) / 3;
               decisive = (real_of_int max_votes \<ge> required)
           in if total_v = 0 then Inl ZeroDivisionError
              else Inr \<lparr>winner = w, vote_counts = vc, total_votes = total_v,
                        consensus_type = SUPERMAJORITY,
                        is_decisive = decisive,
                        tied = False,
                        confidence = Some (real_of_int max_votes / real_of_int total_v),
                        breakdown = bd\<rparr>))"

definition unanimous :: "counter \<Rightarrow> int \<Rightarrow> (string \<times> string list) list
    \<Rightarrow> error + VotingResult" where
  "unanimous vc total_v bd =
     (case most_common 1 vc of
        [] \<Rightarrow> Inl IndexError
      | (w, max_votes) # _ \<Rightarrow>
          (let decisive = (max_votes = total_v)
           in if \<not> decisive \<and> total_v = 0 then Inl ZeroDivisionError
              else Inr \<lparr>winner = w, vote_counts = vc, total_votes = total_v,
                        consensus_type = UNANIMOUS,
                        is_decisive = decisive,
                        tied = False,
                        confidence = Some (if decisive then 1
                                           else real_of_int max_votes / real_of_int total_v),
                        breakdown = bd\<rparr>))"

definition plurality :: "counter \<Rightarrow> int \<Rightarrow> (string \<times> string list) list
    \<Rightarrow> error + VotingResult" where
  "plurality vc total_v bd =
     (case most_common 1 vc of
        [] \<Rightarrow> Inl IndexError
      | (w, max_votes) # _ \<Rightarrow>
          (let is_tied = top_two_tied vc
           in if total_v = 0 then Inl ZeroDivisionError
              else Inr \<lparr>winner = w, vote_counts = vc, total_votes = total_v,
                        consensus_type = PLURALITY,
                        is_decisive = (\<not> is_tied),
                        tied = is_tied,
                        confidence = Some (real_of_int max_votes / real_of_int total_v),
                        breakdown = bd\<rparr>))"

definition weighted :: "vote_data list \<Rightarrow> (string \<times> string list) list
    \<Rightarrow> error + VotingResult" where
  "weighted votes bd =
     (let weighted_votes =
            foldl (\<lambda>wv v. weighted_add (choice v) (conscientiousness (traits (agent v))) wv)
                  [] votes
      in case max_key weighted_votes of
           Inl e \<Rightarrow> Inl e
         | Inr w \<Rightarrow>
             (let total_weight = sum_list (map snd weighted_votes)
              in if total_weight = 0 then Inl ZeroDivisionError
                 else Inr \<lparr>winner = w,
                           vote_counts = map (\<lambda>(k, v). (k, py_int (v * 10))) weighted_votes,
                           total_votes = int (length votes),
                           consensus_type = WEIGHTED,
                           is_decisive = True,
                           tied = False,
                           confidence = Some (the (map_of weighted_votes w) / total_weight),
                           breakdown = bd\<rparr>))"

definition calculate_result :: "VotingProtocol \<Rightarrow> vote_data list \<Rightarrow> Citizen list
    \<Rightarrow> error + VotingResult" where
  "calculate_result self votes agents =
     (let vc = Counter (map choice votes);
          total_v = int (length votes);
          bd = foldl (\<lambda>b v. breakdown_append (choice v) (agent_id v) b) [] votes
      in case self_consensus_type self of
           SIMPLE_MAJORITY \<Rightarrow> simple_majority vc total_v bd
         | SUPERMAJORITY \<Rightarrow> supermajority vc total_v bd
         | UNANIMOUS \<Rightarrow> unanimous vc total_v bd
         | PLURALITY \<Rightarrow> plurality vc total_v bd
         | WEIGHTED \<Rightarrow> weighted votes bd
         | RANKED_CHOICE \<Rightarrow> simple_majority vc total_v bd)"

text \<open>Inputs for the worked examples: a participant with mid-range traits and a parsed vote.\<close>

definition example_agent :: "string \<Rightarrow> Citizen" where
  "example_agent n =
     \<lparr>name = n,
      traits = \<lparr>openness = 1 / 2, conscientiousness = 1 / 2, extraversion = 1 / 2,
                agreeableness = 1 / 2, neuroticism = 1 / 2\<rparr>\<rparr>"

definition example_vote :: "string \<Rightarrow> string \<Rightarrow> vote_data" where
  "example_vote n c =
     \<lparr>choice = c, reasoning = None, raw_response = c, agent_id = n, agent = example_agent n\<rparr>"


section \<open>Text\<close>

text \<open>
  A Python \<^verbatim>\<open>str\<close> is a \<open>string\<close>; the model covers ASCII text, one \<open>char\<close> per
  character. \<open>contains sub s\<close> is \<^verbatim>\<open>sub in s\<close>, \<open>split_on\<close> is \<^verbatim>\<open>str.split(sep)\<close> for
  a one-character separator, \<open>after_colon\<close> is \<^verbatim>\<open>s.split(":", 1)[1]\<close> for a string that
  holds a colon, \<open>strip\<close> removes the white space at both ends, \<open>join\<close> is
  \<^verbatim>\<open>sep.join(xs)\<close> and \<open>str_nat\<close> prints a non-negative integer in decimal.
\<close>

definition upper_char :: "char \<Rightarrow> char" where
  "upper_char c =
     (if 97 \<le> (of_char c :: nat) \<and> (of_char c :: nat) \<le> 122
      then char_of ((of_char c :: nat) - 32) else c)"

definition lower_char :: "char \<Rightarrow> char" where
  "lower_char c =
     (if 65 \<le> (of_char c :: nat) \<and> (of_char c :: nat) \<le> 90
      then char_of ((of_char c :: nat) + 32) else c)"

definition upper :: "string \<Rightarrow> string" where
  "upper s = map upper_char s"

definition lower :: "string \<Rightarrow> string" where
  "lower s = map lower_char s"

fun contains :: "string \<Rightarrow> string \<Rightarrow> bool" where
  "contains sub [] = (sub = [])"
| "contains sub (c # cs) = (take (length sub) (c # cs) = sub \<or> contains sub cs)"

fun split_on :: "char \<Rightarrow> string \<Rightarrow> string list" where
  "split_on d [] = [[]]"
| "split_on d (c # cs) =
     (if c = d then [] # split_on d cs
      else (case split_on d cs of [] \<Rightarrow> [[c]] | l # ls \<Rightarrow> (c # l) # ls))"

definition after_colon :: "string \<Rightarrow> string" where
  "after_colon s = drop 1 (dropWhile (\<lambda>c. c \<noteq> CHR '':'') s)"

definition is_space :: "char \<Rightarrow> bool" where
  "is_space c = ((of_char c :: nat) \<in> {9, 10, 11, 12, 13, 28, 29, 30, 31, 32})"

definition strip :: "string \<Rightarrow> string" where
  "strip s = rev (dropWhile is_space (rev (dropWhile is_space s)))"

definition is_digit :: "char \<Rightarrow> bool" where
  "is_digit c = (48 \<le> (of_char c :: nat) \<and> (of_char c :: nat) \<le> 57)"

definition digits_value :: "string \<Rightarrow> nat" where
  "digits_value ds = foldl (\<lambda>n c. 10 * n + ((of_char c :: nat) - 48)) 0 ds"

fun str_nat :: "nat \<Rightarrow> string" where
  "str_nat n =
     (if n < 10 then [char_of (48 + n)]
      else str_nat (n div 10) @ [char_of (48 + n mod 10)])"

declare str_nat.simps [simp del]

fun join :: "string \<Rightarrow> string list \<Rightarrow> string" where
  "join sep [] = []"
| "join sep [x] = x"
| "join sep (x # y # ys) = x @ sep @ join sep (y # ys)"

section \<open>Protocol state and the participants' answers (base.py)\<close>

text \<open>
  \<^verbatim>\<open>ProtocolMessage\<close>, \<^verbatim>\<open>AgentResponse\<close> and \<^verbatim>\<open>ProtocolState\<close>, without their timestamps
  and the unused \<^verbatim>\<open>metadata\<close> dictionaries. The fields of \<^verbatim>\<open>AgentResponse\<close> carry the
  prefix \<open>resp_\<close>.
\<close>

record ProtocolMessage =
  sender_id :: string
  content :: string
  message_type :: string

record AgentResponse =
  resp_agent_id :: string
  resp_response :: string
  resp_confidence :: "real option"
  resp_reasoning :: "string option"
  resp_vote :: "string option"

record 'r ProtocolState =
  round_number :: int
  messages :: "ProtocolMessage list"
  responses :: "AgentResponse list"
  is_complete :: bool
  result :: "'r option"

text \<open>
  \<^verbatim>\<open>Citizen.think(stimulus, context)\<close> sends a prompt to an external language model and
  returns its text, which the program does not determine. The model takes each answer
  from an oracle, a function of all the calls made so far (agent name, stimulus,
  context), and records every call next to the protocol state; a failure of the
  external service is not modelled. A run is the protocol's \<^verbatim>\<open>self.state\<close> together with
  the record of \<^verbatim>\<open>think\<close> calls.
\<close>

type_synonym think_call = "string \<times> string \<times> string"

type_synonym responder = "think_call list \<Rightarrow> string"

record 'r run =
  state :: "'r ProtocolState"
  calls :: "think_call list"

definition think :: "responder \<Rightarrow> Citizen \<Rightarrow> string \<Rightarrow> string \<Rightarrow> 'r run \<Rightarrow> string \<times> 'r run" where
  "think orc a stimulus ctx w =
     (let cs = calls w @ [(name a, stimulus, ctx)] in (orc cs, w\<lparr>calls := cs\<rparr>))"

definition log_message :: "string \<Rightarrow> string \<Rightarrow> string \<Rightarrow> 'r run \<Rightarrow> 'r run" where
  "log_message sender text mtype w =
     w\<lparr>state := (state w)\<lparr>messages := messages (state w) @
          [\<lparr>sender_id = sender, content = text, message_type = mtype\<rparr>]\<rparr>\<rparr>"

definition log_response :: "string \<Rightarrow> string \<Rightarrow> string option \<Rightarrow> string option \<Rightarrow> 'r run
    \<Rightarrow> 'r run" where
  "log_response aid text v rs w =
     w\<lparr>state := (state w)\<lparr>responses := responses (state w) @
          [\<lparr>resp_agent_id = aid, resp_response = text, resp_confidence = None,
            resp_reasoning = rs, resp_vote = v\<rparr>]\<rparr>\<rparr>"

definition reset :: "'r run \<Rightarrow> 'r run" where
  "reset w = w\<lparr>state := \<lparr>round_number = 0, messages = [], responses = [],
                          is_complete = False, result = None\<rparr>\<rparr>"

definition fresh_run :: "'r run" where
  "fresh_run = \<lparr>state = \<lparr>round_number = 0, messages = [], responses = [],
                          is_complete = False, result = None\<rparr>, calls = []\<rparr>"

section \<open>Vote parsing and the voting protocol (voting.py)\<close>

text \<open>
  \<open>falsy c\<close> is the test \<^verbatim>\<open>not vote_data["choice"]\<close>: the choice is \<^verbatim>\<open>None\<close> or the empty
  string.
\<close>

definition falsy :: "string option \<Rightarrow> bool" where
  "falsy c = (c = None \<or> c = Some [])"

text \<open>
  First tier, the body of the loop over the lines of a response that holds \<^verbatim>\<open>VOTE:\<close>.
  The state is the pair (choice, reasoning). \<^verbatim>\<open>int('')\<close> raises inside the
  \<^verbatim>\<open>try\<close>, which leaves the choice as it was.
\<close>

definition parse_line :: "string list \<Rightarrow> string list \<Rightarrow> (string option \<times> string option)
    \<Rightarrow> (nat \<times> string) \<Rightarrow> (string option \<times> string option)" where
  "parse_line opts lines st il =
     (let i = fst il; line = snd il;
          c1 = (if contains ''VOTE:'' (upper line)
                then (let vote_str = strip (after_colon line);
                          ds = filter is_digit vote_str
                      in if ds = [] then fst st
                         else (let vote_num = digits_value ds
                               in if 1 \<le> vote_num \<and> vote_num \<le> length opts
                                  then Some (opts ! (vote_num - 1)) else fst st))
                else fst st);
          r1 = (if contains ''REASON:'' (upper line) \<and> i < length lines
                then (let reason_str = strip (after_colon line)
                      in if reason_str = [] \<and> i + 1 < length lines
                         then Some (strip (lines ! (i + 1)))
                         else Some reason_str)
                else snd st)
      in (c1, r1))"

definition structured_vote :: "string \<Rightarrow> string list \<Rightarrow> (string option \<times> string option)" where
  "structured_vote response opts =
     (if contains ''VOTE:'' (upper response)
      then (let lines = split_on CHR ''\<newline>'' response
            in foldl (parse_line opts lines) (None, None) (enumerate 0 lines))
      else (None, None))"

text \<open>Second tier: the first option whose text occurs in the response, ignoring case.\<close>

definition mentioned_option :: "string \<Rightarrow> string list \<Rightarrow> string option" where
  "mentioned_option response opts =
     find (\<lambda>option. contains (lower option) (lower response)) opts"

text \<open>
  Third tier: the first option whose 1-based position occurs, in decimal, in the first 50
  characters of the response.
\<close>

definition numbered_option :: "string \<Rightarrow> string list \<Rightarrow> string option" where
  "numbered_option response opts =
     map_option snd
       (find (\<lambda>io. contains (str_nat (fst io)) (take 50 response)) (enumerate 1 opts))"

definition parse_vote :: "VotingProtocol \<Rightarrow> string \<Rightarrow> string list \<Rightarrow> error + parsed_vote" where
  "parse_vote self response opts =
     (let sv = structured_vote response opts;
          c1 = fst sv;
          c2 = (if falsy c1
                then (case mentioned_option response opts of None \<Rightarrow> c1 | Some opt \<Rightarrow> Some opt)
                else c1);
          c3 = (if falsy c2
                then (case numbered_option response opts of None \<Rightarrow> c2 | Some opt \<Rightarrow> Some opt)
                else c2)
      in if falsy c3
         then (if allow_abstention self
               then Inr \<lparr>choice = ''ABSTAIN'', reasoning = snd sv, raw_response = response\<rparr>
               else (case opts of
                       [] \<Rightarrow> Inl IndexError
                     | first # _ \<Rightarrow>
                         Inr \<lparr>choice = first, reasoning = snd sv, raw_response = response\<rparr>))
         else Inr \<lparr>choice = the c3, reasoning = snd sv, raw_response = response\<rparr>)"

text \<open>The context dictionary of \<^verbatim>\<open>VotingProtocol.execute\<close>; \<open>None\<close> is a missing key.\<close>

record voting_context =
  ctx_question :: "string option"
  ctx_options :: "string list option"
  ctx_background :: "string option"

definition voting_prompt :: "VotingProtocol \<Rightarrow> string \<Rightarrow> string list \<Rightarrow> string \<Rightarrow> string" where
  "voting_prompt self question opts background =
     (let options_str = join ''\<newline>'' (map (\<lambda>io. str_nat (fst io + 1) @ ''. '' @ snd io)
                                             (enumerate 0 opts))
      in (if background \<noteq> [] then background @ ''\<newline>\<newline>'' else [])
         @ ''QUESTION: '' @ question @ ''\<newline>\<newline>''
         @ ''OPTIONS:\<newline>'' @ options_str @ ''\<newline>\<newline>''
         @ (if require_reasoning self
            then ''Respond with:\<newline>''
                 @ ''1. Your choice (just the number)\<newline>''
                 @ ''2. Your reasoning (1-2 sentences)\<newline>''
                 @ ''Format: '' @ [CHR 0x27] @ ''VOTE: [number]'' @ [CHR 0x5C] @ ''nREASON: [your reasoning]''
                 @ [CHR 0x27]
            else ''Respond with just the number of your choice (1, 2, 3, etc.)''))"

fun collect_votes_loop :: "responder \<Rightarrow> VotingProtocol \<Rightarrow> string \<Rightarrow> string list \<Rightarrow> Citizen list
    \<Rightarrow> vote_data list \<Rightarrow> 'r run \<Rightarrow> (error + vote_data list) \<times> 'r run" where
  "collect_votes_loop orc self prompt opts [] votes w = (Inr votes, w)"
| "collect_votes_loop orc self prompt opts (a # as) votes w =
     (let (response, w1) = think orc a prompt ''Voting decision'' w
      in case parse_vote self response opts of
           Inl e \<Rightarrow> (Inl e, w1)
         | Inr pv \<Rightarrow>
             (let vd = \<lparr>choice = choice pv, reasoning = reasoning pv,
                        raw_response = raw_response pv, agent_id = name a, agent = a\<rparr>;
                  w2 = log_response (name a) response (Some (choice vd)) (reasoning vd) w1
              in collect_votes_loop orc self prompt opts as (votes @ [vd]) w2))"

definition collect_votes :: "responder \<Rightarrow> VotingProtocol \<Rightarrow> Citizen list \<Rightarrow> string \<Rightarrow> string list
    \<Rightarrow> string \<Rightarrow> 'r run \<Rightarrow> (error + vote_data list) \<times> 'r run" where
  "collect_votes orc self agents question opts background w =
     collect_votes_loop orc self (voting_prompt self question opts background) opts agents [] w"

definition voting_validate_participation :: "Citizen list \<Rightarrow> bool" where
  "voting_validate_participation agents = (length agents \<ge> 2)"

definition voting_execute :: "responder \<Rightarrow> VotingProtocol \<Rightarrow> Citizen list \<Rightarrow> voting_context
    \<Rightarrow> VotingResult run \<Rightarrow> (error + VotingResult) \<times> VotingResult run" where
  "voting_execute orc self agents ctx w =
     (if \<not> voting_validate_participation agents then (Inl ValueError, w)
      else (let question = (case ctx_question ctx of None \<Rightarrow> [] | Some q \<Rightarrow> q);
                opts = (case ctx_options ctx of None \<Rightarrow> [] | Some os \<Rightarrow> os);
                background = (case ctx_background ctx of None \<Rightarrow> [] | Some b \<Rightarrow> b)
            in if opts = [] then (Inl ValueError, w)
               else (case collect_votes orc self agents question opts background w of
                       (Inl e, w1) \<Rightarrow> (Inl e, w1)
                     | (Inr votes, w1) \<Rightarrow>
                         (case calculate_result self votes agents of
                            Inl e \<Rightarrow> (Inl e, w1)
                          | Inr r \<Rightarrow>
                              (Inr r, w1\<lparr>state := (state w1)\<lparr>result := Some r,
                                                             is_complete := True\<rparr>\<rparr>)))))"


section \<open>The negotiation protocol (economy/negotiation.py)\<close>

datatype NegotiationOutcome = SUCCESS | FAILURE | TIMEOUT

text \<open>
  \<^verbatim>\<open>Offer\<close> and \<^verbatim>\<open>NegotiationResult\<close>. \<open>offer_round\<close> and \<open>offer_agent_id\<close> are the fields
  \<^verbatim>\<open>round\<close> and \<^verbatim>\<open>agent_id\<close> of an offer, \<open>neg_rounds_taken\<close> the field \<^verbatim>\<open>rounds_taken\<close> of
  the result. Prices are Python floats, idealised as reals.
\<close>

record Offer =
  offer_round :: int
  offer_agent_id :: string
  role :: string
  price :: real
  message :: string

record NegotiationResult =
  outcome :: NegotiationOutcome
  final_price :: "real option"
  neg_rounds_taken :: int
  offers :: "Offer list"
  buyer_id :: string
  seller_id :: string
  item :: string
  initial_ask :: real
  initial_bid :: real
  savings :: "real option"
  premium :: "real option"

text \<open>The fields of \<^verbatim>\<open>NegotiationProtocol\<close> (\<^verbatim>\<open>self\<close>); \<open>neg_max_rounds\<close> is \<^verbatim>\<open>max_rounds\<close>.\<close>

record NegotiationProtocol =
  neg_max_rounds :: int
  min_price_movement :: real
  convergence_threshold :: real

text \<open>
  The context dictionary of \<^verbatim>\<open>NegotiationProtocol.execute\<close>; \<open>None\<close> is a missing key, for
  which \<^verbatim>\<open>context.get\<close> supplies the default.
\<close>

record negotiation_context =
  ctx_item :: "string option"
  ctx_seller_index :: "int option"
  ctx_seller_reserve :: "real option"
  ctx_buyer_max :: "real option"

definition get_item :: "negotiation_context \<Rightarrow> string" where
  "get_item ctx = (case ctx_item ctx of None \<Rightarrow> ''Product'' | Some i \<Rightarrow> i)"

definition get_seller_index :: "negotiation_context \<Rightarrow> int" where
  "get_seller_index ctx = (case ctx_seller_index ctx of None \<Rightarrow> 0 | Some i \<Rightarrow> i)"

definition get_seller_reserve :: "negotiation_context \<Rightarrow> real" where
  "get_seller_reserve ctx = (case ctx_seller_reserve ctx of None \<Rightarrow> 100 | Some r \<Rightarrow> r)"

definition get_buyer_max :: "negotiation_context \<Rightarrow> real" where
  "get_buyer_max ctx = (case ctx_buyer_max ctx of None \<Rightarrow> 200 | Some m \<Rightarrow> m)"

text \<open>\<^verbatim>\<open>xs[i]\<close> on a Python list: a negative index counts from the end.\<close>

definition py_index :: "'a list \<Rightarrow> int \<Rightarrow> error + 'a" where
  "py_index xs i =
     (if 0 \<le> i \<and> i < int (length xs) then Inr (xs ! nat i)
      else if i < 0 \<and> - int (length xs) \<le> i then Inr (xs ! nat (int (length xs) + i))
      else Inl IndexError)"

definition negotiation_validate_participation :: "Citizen list \<Rightarrow> bool" where
  "negotiation_validate_participation agents = (length agents = 2)"

definition get_initial_ask :: "Citizen \<Rightarrow> real \<Rightarrow> real" where
  "get_initial_ask seller reserve_price =
     (let markup_factor =
            (if openness (traits seller) > 7 / 10 then 18 / 10
             else if neuroticism (traits seller) > 7 / 10 then 12 / 10
             else 15 / 10)
      in reserve_price * markup_factor)"

definition get_initial_bid :: "Citizen \<Rightarrow> real \<Rightarrow> real" where
  "get_initial_bid buyer max_price =
     (let bid_factor =
            (if agreeableness (traits buyer) > 7 / 10 then 75 / 100
             else if conscientiousness (traits buyer) > 7 / 10 then 65 / 100
             else 6 / 10)
      in max_price * bid_factor)"

definition seller_counter :: "NegotiationProtocol \<Rightarrow> Citizen \<Rightarrow> real \<Rightarrow> real \<Rightarrow> real \<Rightarrow> int
    \<Rightarrow> error + real" where
  "seller_counter self seller current_ask buyer_bid reserve round_num =
     (let gap = current_ask - buyer_bid;
          base_rate =
            (if agreeableness (traits seller) > 6 / 10 then 4 / 10
             else if conscientiousness (traits seller) > 6 / 10 then 3 / 10
             else 2 / 10)
      in if neg_max_rounds self = 0 then Inl ZeroDivisionError
         else (let pressure_factor = real_of_int round_num / real_of_int (neg_max_rounds self);
                   concession_rate = base_rate * (1 + pressure_factor);
                   new_ask = max (current_ask - gap * concession_rate) reserve
               in if \<bar>new_ask - current_ask\<bar> < min_price_movement self
                  then Inr (max (current_ask - min_price_movement self) reserve)
                  else Inr new_ask))"

definition buyer_counter :: "NegotiationProtocol \<Rightarrow> Citizen \<Rightarrow> real \<Rightarrow> real \<Rightarrow> real \<Rightarrow> int
    \<Rightarrow> error + real" where
  "buyer_counter self buyer current_bid seller_ask max_price round_num =
     (let gap = seller_ask - current_bid;
          base_rate =
            (if agreeableness (traits buyer) > 6 / 10 then 4 / 10
             else if openness (traits buyer) > 6 / 10 then 35 / 100
             else 25 / 100)
      in if neg_max_rounds self = 0 then Inl ZeroDivisionError
         else (let pressure_factor = real_of_int round_num / real_of_int (neg_max_rounds self);
                   concession_rate = base_rate * (1 + pressure_factor);
                   new_bid = min (current_bid + gap * concession_rate) max_price
               in if \<bar>new_bid - current_bid\<bar> < min_price_movement self
                  then Inr (min (current_bid + min_price_movement self) max_price)
                  else Inr new_bid))"

definition create_success_result :: "Citizen \<Rightarrow> Citizen \<Rightarrow> string \<Rightarrow> real \<Rightarrow> real \<Rightarrow> real
    \<Rightarrow> Offer list \<Rightarrow> NegotiationResult" where
  "create_success_result buyer seller itm fprice init_ask init_bid offs =
     \<lparr>outcome = SUCCESS,
      final_price = Some fprice,
      neg_rounds_taken = int (length (filter (\<lambda>x. offer_round x > 0) offs)) div 2,
      offers = offs,
      buyer_id = name buyer,
      seller_id = name seller,
      item = itm,
      initial_ask = init_ask,
      initial_bid = init_bid,
      savings = Some (init_ask - fprice),
      premium = Some (fprice - init_bid)\<rparr>"

text \<open>
  The loop \<^verbatim>\<open>for round_num in range(1, self.max_rounds + 1)\<close>: the first numeric argument
  counts the iterations that remain, the second is \<^verbatim>\<open>round_num\<close>. When none remains the
  loop has ended without agreement and the result is the timeout.
\<close>

fun negotiation_rounds :: "NegotiationProtocol \<Rightarrow> Citizen \<Rightarrow> Citizen \<Rightarrow> string \<Rightarrow> real \<Rightarrow> real
    \<Rightarrow> real \<Rightarrow> real \<Rightarrow> nat \<Rightarrow> int \<Rightarrow> real \<Rightarrow> real \<Rightarrow> Offer list \<Rightarrow> error + NegotiationResult" where
  "negotiation_rounds self seller buyer itm seller_reserve buyer_max init_ask init_bid
       0 round_num current_ask current_bid offs =
     Inr \<lparr>outcome = TIMEOUT, final_price = None, neg_rounds_taken = neg_max_rounds self,
          offers = offs, buyer_id = name buyer, seller_id = name seller, item = itm,
          initial_ask = init_ask, initial_bid = init_bid, savings = None, premium = None\<rparr>"
| "negotiation_rounds self seller buyer itm seller_reserve buyer_max init_ask init_bid
       (Suc k) round_num current_ask current_bid offs =
     (case seller_counter self seller current_ask current_bid seller_reserve round_num of
        Inl e \<Rightarrow> Inl e
      | Inr ask \<Rightarrow>
          (let offs1 = offs @ [\<lparr>offer_round = round_num, offer_agent_id = name seller,
                                 role = ''seller'', price = ask, message = ''Counter-offer''\<rparr>]
           in if \<bar>ask - current_bid\<bar> \<le> convergence_threshold self
              then Inr (create_success_result buyer seller itm ((ask + current_bid) / 2)
                          init_ask init_bid offs1)
              else (case buyer_counter self buyer current_bid ask buyer_max round_num of
                      Inl e \<Rightarrow> Inl e
                    | Inr bid \<Rightarrow>
                        (let offs2 = offs1 @ [\<lparr>offer_round = round_num,
                                 offer_agent_id = name buyer, role = ''buyer'', price = bid,
                                 message = ''Counter-offer''\<rparr>]
                         in if \<bar>ask - bid\<bar> \<le> convergence_threshold self
                            then Inr (create_success_result buyer seller itm ((ask + bid) / 2)
                                        init_ask init_bid offs2)
                            else negotiation_rounds self seller buyer itm seller_reserve
                                   buyer_max init_ask init_bid k (round_num + 1) ask bid
                                   offs2))))"

text \<open>
  \<^verbatim>\<open>NegotiationProtocol.execute\<close>. The method reads the participants' traits and names
  only: it never calls \<^verbatim>\<open>think\<close> and never logs, so every branch returns the run it was
  given.
\<close>

definition negotiation_execute :: "NegotiationProtocol \<Rightarrow> Citizen list \<Rightarrow> negotiation_context
    \<Rightarrow> NegotiationResult run \<Rightarrow> (error + NegotiationResult) \<times> NegotiationResult run" where
  "negotiation_execute self agents ctx w =
     (if \<not> negotiation_validate_participation agents then (Inl ValueError, w)
      else (let itm = get_item ctx;
                seller_index = get_seller_index ctx;
                buyer_index = 1 - seller_index
            in case py_index agents seller_index of
                 Inl e \<Rightarrow> (Inl e, w)
               | Inr seller \<Rightarrow>
                   (case py_index agents buyer_index of
                      Inl e \<Rightarrow> (Inl e, w)
                    | Inr buyer \<Rightarrow>
                        (let seller_reserve = get_seller_reserve ctx;
                             buyer_max = get_buyer_max ctx
                         in if seller_reserve > buyer_max
                            then (Inr \<lparr>outcome = FAILURE, final_price = None,
                                       neg_rounds_taken = 0, offers = [],
                                       buyer_id = name buyer, seller_id = name seller,
                                       item = itm, initial_ask = seller_reserve,
                                       initial_bid = buyer_max, savings = None,
                                       premium = None\<rparr>, w)
                            else (let init_ask = get_initial_ask seller seller_reserve;
                                      init_bid = get_initial_bid buyer buyer_max;
                                      offs = [\<lparr>offer_round = 0, offer_agent_id = name seller,
                                                role = ''seller'', price = init_ask,
                                                message = ''Initial ask''\<rparr>,
                                              \<lparr>offer_round = 0, offer_agent_id = name buyer,
                                                role = ''buyer'', price = init_bid,
                                                message = ''Initial bid''\<rparr>]
                                  in if \<bar>init_ask - init_bid\<bar> \<le> convergence_threshold self
                                     then (Inr (create_success_result buyer seller itm
                                                  ((init_ask + init_bid) / 2)
                                                  init_ask init_bid offs), w)
                                     else (negotiation_rounds self seller buyer itm
                                             seller_reserve buyer_max init_ask init_bid
                                             (nat (neg_max_rounds self)) 1 init_ask init_bid
                                             offs, w))))))"

text \<open>The protocol with the defaults of its constructor.\<close>

definition default_negotiation :: NegotiationProtocol where
  "default_negotiation =
     \<lparr>neg_max_rounds = 5, min_price_movement = 1, convergence_threshold = 5\<rparr>"

text \<open>
  A worked negotiation: the default protocol, a seller and a buyer with mid-range traits
  (seller first), the given reserve and maximum, on a fresh run.
\<close>

definition example_negotiation :: "real \<Rightarrow> real \<Rightarrow> error + NegotiationResult" where
  "example_negotiation reserve_price max_price =
     fst (negotiation_execute default_negotiation
            [example_agent ''seller'', example_agent ''buyer'']
            \<lparr>ctx_item = None, ctx_seller_index = None,
             ctx_seller_reserve = Some reserve_price, ctx_buyer_max = Some max_price\<rparr>
            fresh_run)"


section \<open>The jury protocol (protocols/jury.py)\<close>

text \<open>
  \<^verbatim>\<open>JuryVerdict\<close>; a tally is a dictionary from verdict to count, in insertion order.
\<close>

record JuryVerdict =
  verdict :: string
  final_vote_counts :: counter
  rounds_taken :: int
  consensus_reached :: bool
  vote_trajectory :: "counter list"
  key_arguments :: "string list"
  holdouts :: "string list"

text \<open>The fields of \<^verbatim>\<open>JuryProtocol\<close> (\<^verbatim>\<open>self\<close>); \<open>jury_max_rounds\<close> is \<^verbatim>\<open>max_rounds\<close>.\<close>

record JuryProtocol =
  jury_max_rounds :: int
  required_consensus :: real
  allow_hung_jury :: bool

text \<open>The context dictionary of \<^verbatim>\<open>JuryProtocol.execute\<close>; \<open>None\<close> is a missing key.\<close>

record jury_context =
  ctx_case_summary :: "string option"
  ctx_evidence :: "string list option"
  ctx_charges :: "string option"
  ctx_verdict_options :: "string list option"

definition str_int :: "int \<Rightarrow> string" where
  "str_int i = (if i < 0 then ''-'' @ str_nat (nat (- i)) else str_nat (nat i))"

text \<open>\<^verbatim>\<open>xs[-n:]\<close> for \<open>n \<ge> 0\<close>: the last \<open>n\<close> elements, and the whole list when \<open>n = 0\<close>.\<close>

definition last_n :: "nat \<Rightarrow> 'a list \<Rightarrow> 'a list" where
  "last_n n xs = (if n = 0 then xs else drop (length xs - n) xs)"

definition jury_validate_participation :: "Citizen list \<Rightarrow> bool" where
  "jury_validate_participation agents = (6 \<le> length agents \<and> length agents \<le> 12)"

definition parse_jury_vote :: "string \<Rightarrow> string list \<Rightarrow> error + string" where
  "parse_jury_vote response opts =
     (let response_upper = upper response;
          fallback =
            (if contains ''NOT GUILTY'' response_upper then Inr ''Not Guilty''
             else if contains ''GUILTY'' response_upper then Inr ''Guilty''
             else (case opts of [] \<Rightarrow> Inl IndexError | first # _ \<Rightarrow> Inr first))
      in if contains ''VOTE:'' response_upper
         then (case filter (\<lambda>line. contains ''VOTE:'' (upper line))
                      (split_on CHR ''\<newline>'' response) of
                 [] \<Rightarrow> Inl IndexError
               | vote_line # _ \<Rightarrow>
                   (let vote_text = strip (after_colon vote_line)
                    in if contains ''GUILTY'' (upper vote_text)
                          \<and> \<not> contains ''NOT'' (upper vote_text)
                       then Inr ''Guilty''
                       else if contains ''NOT GUILTY'' (upper vote_text)
                       then Inr ''Not Guilty''
                       else fallback))
         else fallback)"

definition initial_vote_prompt :: "string \<Rightarrow> string list \<Rightarrow> string \<Rightarrow> string" where
  "initial_vote_prompt case_summary evidence charges =
     (let evidence_str = (if evidence \<noteq> [] then join ''\<newline>'' (map (\<lambda>e. ''- '' @ e) evidence)
                          else ''See case summary'')
      in ''You are a juror in a criminal trial.\<newline>\<newline>''
         @ ''CHARGES: '' @ charges @ ''\<newline>\<newline>''
         @ ''CASE SUMMARY:\<newline>'' @ case_summary @ ''\<newline>\<newline>''
         @ ''EVIDENCE:\<newline>'' @ evidence_str @ ''\<newline>\<newline>''
         @ ''As a juror, you must vote based on the evidence presented. \<newline>''
         @ ''Respond with ONLY your initial vote and brief reasoning:\<newline>\<newline>''
         @ ''VOTE: [Guilty or Not Guilty]\<newline>''
         @ ''REASON: [1-2 sentences explaining your reasoning]\<newline>'')"

text \<open>
  The voting loop shared by \<^verbatim>\<open>_initial_vote\<close> and \<^verbatim>\<open>_revote\<close>: each agent is asked, the
  answer is parsed, counted and logged. An exception of the parser leaves the loop with
  what has been recorded so far.
\<close>

fun jury_vote_loop :: "responder \<Rightarrow> string \<Rightarrow> string \<Rightarrow> string list \<Rightarrow> Citizen list \<Rightarrow> counter
    \<Rightarrow> 'r run \<Rightarrow> (error + counter) \<times> 'r run" where
  "jury_vote_loop orc prompt label opts [] votes w = (Inr votes, w)"
| "jury_vote_loop orc prompt label opts (a # as) votes w =
     (let (response, w1) = think orc a prompt label w
      in case parse_jury_vote response opts of
           Inl e \<Rightarrow> (Inl e, w1)
         | Inr v \<Rightarrow>
             jury_vote_loop orc prompt label opts as (counter_incr v votes)
               (log_response (name a) response (Some v) None w1))"

definition initial_vote :: "responder \<Rightarrow> Citizen list \<Rightarrow> string \<Rightarrow> string list \<Rightarrow> string
    \<Rightarrow> string list \<Rightarrow> 'r run \<Rightarrow> (error + counter) \<times> 'r run" where
  "initial_vote orc agents case_summary evidence charges opts w =
     jury_vote_loop orc (initial_vote_prompt case_summary evidence charges)
       ''Jury initial vote'' opts agents [] w"

definition discussion_prompt :: "counter \<Rightarrow> int \<Rightarrow> string" where
  "discussion_prompt current_votes round_num =
     (let vote_summary = join '', '' (map (\<lambda>vc. str_int (snd vc) @ '' vote(s) for '' @ fst vc)
                                          current_votes)
      in ''You are in jury deliberations (Round '' @ str_int round_num @ '').\<newline>\<newline>''
         @ ''CURRENT VOTE COUNT: '' @ vote_summary @ ''\<newline>\<newline>''
         @ ''The jury is not unanimous. Please share your strongest argument for your position.\<newline>''
         @ ''Be persuasive but respectful. Consider the evidence and the burden of proof.\<newline>\<newline>''
         @ ''Your argument (2-3 sentences):'')"

fun discussion_loop :: "responder \<Rightarrow> string \<Rightarrow> Citizen list \<Rightarrow> string list \<Rightarrow> 'r run
    \<Rightarrow> string list \<times> 'r run" where
  "discussion_loop orc prompt [] arguments w = (arguments, w)"
| "discussion_loop orc prompt (a # as) arguments w =
     (let (argument, w1) = think orc a prompt ''Jury deliberation argument'' w
      in discussion_loop orc prompt as (arguments @ [name a @ '': '' @ argument])
           (log_message (name a) argument ''argument'' w1))"

definition discussion_round :: "responder \<Rightarrow> Citizen list \<Rightarrow> counter \<Rightarrow> string \<Rightarrow> int \<Rightarrow> 'r run
    \<Rightarrow> string list \<times> 'r run" where
  "discussion_round orc agents current_votes case_summary round_num w =
     discussion_loop orc (discussion_prompt current_votes round_num) agents [] w"

definition revote_prompt :: "Citizen list \<Rightarrow> string list \<Rightarrow> string" where
  "revote_prompt agents arguments =
     (let recent_arguments = join ''\<newline>\<newline>'' (last_n (length agents) arguments)
      in ''The jury has heard the following arguments:\<newline>\<newline>''
         @ recent_arguments @ ''\<newline>\<newline>''
         @ ''After hearing these perspectives, has your position changed?\<newline>''
         @ ''Consider if the arguments were persuasive and if reasonable doubt exists.\<newline>\<newline>''
         @ ''VOTE: [Guilty or Not Guilty]\<newline>''
         @ ''BRIEF NOTE: [Did you change your mind? Why/why not?]'')"

definition revote :: "responder \<Rightarrow> Citizen list \<Rightarrow> string list \<Rightarrow> string list \<Rightarrow> 'r run
    \<Rightarrow> (error + counter) \<times> 'r run" where
  "revote orc agents arguments opts w =
     jury_vote_loop orc (revote_prompt agents arguments) ''Jury re-vote'' opts agents [] w"

definition check_consensus :: "JuryProtocol \<Rightarrow> counter \<Rightarrow> int \<Rightarrow> error + bool" where
  "check_consensus self votes total_jurors =
     (if votes = [] then Inr False
      else (let max_votes = Max (set (map snd votes))
            in if total_jurors = 0 then Inl ZeroDivisionError
               else Inr (real_of_int max_votes / real_of_int total_jurors
                           \<ge> required_consensus self)))"

definition find_holdouts :: "counter list \<Rightarrow> string list" where
  "find_holdouts trajectory = []"

text \<open>
  The deliberation loop \<^verbatim>\<open>for round_num in range(1, self.max_rounds + 1)\<close> with what
  follows it: the first numeric argument counts the iterations that remain, the second
  is \<^verbatim>\<open>round_num\<close>. When none remains the jury is hung, or the plurality verdict is
  forced. The local dictionary \<^verbatim>\<open>agent_positions\<close> is filled from the state and never
  read, so it is left out.
\<close>

fun deliberation_rounds :: "responder \<Rightarrow> JuryProtocol \<Rightarrow> Citizen list \<Rightarrow> string \<Rightarrow> string list
    \<Rightarrow> nat \<Rightarrow> int \<Rightarrow> counter \<Rightarrow> counter list \<Rightarrow> string list \<Rightarrow> 'r run
    \<Rightarrow> (error + JuryVerdict) \<times> 'r run" where
  "deliberation_rounds orc self agents case_summary opts 0 round_num current_votes
       trajectory key_args w =
     (if allow_hung_jury self
      then (Inr \<lparr>verdict = ''Hung Jury'', final_vote_counts = current_votes,
                 rounds_taken = jury_max_rounds self, consensus_reached = False,
                 vote_trajectory = trajectory, key_arguments = take 5 key_args,
                 holdouts = find_holdouts trajectory\<rparr>, w)
      else (case max_key current_votes of
              Inl e \<Rightarrow> (Inl e, w)
            | Inr best \<Rightarrow>
                (Inr \<lparr>verdict = best, final_vote_counts = current_votes,
                      rounds_taken = jury_max_rounds self, consensus_reached = False,
                      vote_trajectory = trajectory, key_arguments = take 5 key_args,
                      holdouts = find_holdouts trajectory\<rparr>, w)))"
| "deliberation_rounds orc self agents case_summary opts (Suc k) round_num current_votes
       trajectory key_args w =
     (let (arguments, w1) = discussion_round orc agents current_votes case_summary round_num w;
          key_args1 = key_args @ arguments
      in case revote orc agents arguments opts w1 of
           (Inl e, w2) \<Rightarrow> (Inl e, w2)
         | (Inr new_votes, w2) \<Rightarrow>
             (let trajectory1 = trajectory @ [new_votes]
              in case check_consensus self new_votes (int (length agents)) of
                   Inl e \<Rightarrow> (Inl e, w2)
                 | Inr True \<Rightarrow>
                     (case max_key new_votes of
                        Inl e \<Rightarrow> (Inl e, w2)
                      | Inr best \<Rightarrow>
                          (Inr \<lparr>verdict = best, final_vote_counts = new_votes,
                                rounds_taken = round_num, consensus_reached = True,
                                vote_trajectory = trajectory1,
                                key_arguments = take 5 key_args1,
                                holdouts = find_holdouts trajectory1\<rparr>, w2))
                 | Inr False \<Rightarrow>
                     deliberation_rounds orc self agents case_summary opts k (round_num + 1)
                       new_votes trajectory1 key_args1 w2))"

definition jury_case_summary :: "jury_context \<Rightarrow> string" where
  "jury_case_summary ctx = (case ctx_case_summary ctx of None \<Rightarrow> [] | Some s \<Rightarrow> s)"

definition jury_evidence :: "jury_context \<Rightarrow> string list" where
  "jury_evidence ctx = (case ctx_evidence ctx of None \<Rightarrow> [] | Some es \<Rightarrow> es)"

definition jury_charges :: "jury_context \<Rightarrow> string" where
  "jury_charges ctx = (case ctx_charges ctx of None \<Rightarrow> [] | Some c \<Rightarrow> c)"

definition jury_verdict_options :: "jury_context \<Rightarrow> string list" where
  "jury_verdict_options ctx =
     (case ctx_verdict_options ctx of None \<Rightarrow> [''Guilty'', ''Not Guilty''] | Some os \<Rightarrow> os)"

definition jury_execute :: "responder \<Rightarrow> JuryProtocol \<Rightarrow> Citizen list \<Rightarrow> jury_context \<Rightarrow> 'r run
    \<Rightarrow> (error + JuryVerdict) \<times> 'r run" where
  "jury_execute orc self agents ctx w =
     (if \<not> jury_validate_participation agents then (Inl ValueError, w)
      else (let case_summary = jury_case_summary ctx;
                evidence = jury_evidence ctx;
                charges = jury_charges ctx;
                opts = jury_verdict_options ctx
            in case initial_vote orc agents case_summary evidence charges opts w of
                 (Inl e, w1) \<Rightarrow> (Inl e, w1)
               | (Inr current_votes, w1) \<Rightarrow>
                   (case check_consensus self current_votes (int (length agents)) of
                      Inl e \<Rightarrow> (Inl e, w1)
                    | Inr True \<Rightarrow>
                        (case max_key current_votes of
                           Inl e \<Rightarrow> (Inl e, w1)
                         | Inr best \<Rightarrow>
                             (Inr \<lparr>verdict = best, final_vote_counts = current_votes,
                                   rounds_taken = 0, consensus_reached = True,
                                   vote_trajectory = [current_votes],
                                   key_arguments = [], holdouts = []\<rparr>, w1))
                    | Inr False \<Rightarrow>
                        deliberation_rounds orc self agents case_summary opts
                          (nat (jury_max_rounds self)) 1 current_votes [current_votes] [] w1)))"

text \<open>
  The tally after round \<open>i\<close> of a deliberation, and the run it leaves, from the three
  phases alone: round 0 is the initial secret ballot; round \<open>i + 1\<close> is one exchange of
  arguments on the tally of round \<open>i\<close>, in the run round \<open>i\<close> left, followed by the
  re-vote on those arguments.
\<close>

fun tally_after_round :: "responder \<Rightarrow> Citizen list \<Rightarrow> string \<Rightarrow> string list \<Rightarrow> string
    \<Rightarrow> string list \<Rightarrow> 'r run \<Rightarrow> nat \<Rightarrow> (error + counter) \<times> 'r run" where
  "tally_after_round orc agents case_summary evidence charges opts w 0 =
     initial_vote orc agents case_summary evidence charges opts w"
| "tally_after_round orc agents case_summary evidence charges opts w (Suc i) =
     (case tally_after_round orc agents case_summary evidence charges opts w i of
        (Inl e, wi) \<Rightarrow> (Inl e, wi)
      | (Inr current_votes, wi) \<Rightarrow>
          (let (arguments, w1) =
                 discussion_round orc agents current_votes case_summary (int (Suc i)) wi
           in revote orc agents arguments opts w1))"

text \<open>
  Worked juries: panels of jurors with mid-range traits, and answers that depend on the
  juror asked and on the phase only. With \<open>swayed_answers gs hs\<close> the jurors named in
  \<open>gs\<close> answer guilty in the initial ballot and in the discussion, the jurors named in
  \<open>hs\<close> answer guilty in a re-vote, and everybody else answers not guilty.
\<close>

definition panel :: "string list \<Rightarrow> Citizen list" where
  "panel names = map example_agent names"

definition six_names :: "string list" where
  "six_names = [''j01'', ''j02'', ''j03'', ''j04'', ''j05'', ''j06'']"

definition twelve_names :: "string list" where
  "twelve_names = six_names @ [''j07'', ''j08'', ''j09'', ''j10'', ''j11'', ''j12'']"

definition swayed_answers :: "string list \<Rightarrow> string list \<Rightarrow> responder" where
  "swayed_answers gs hs cs =
     (case rev cs of
        [] \<Rightarrow> ''VOTE: Not Guilty''
      | (n, p, l) # _ \<Rightarrow>
          (if n \<in> set (if l = ''Jury re-vote'' then hs else gs)
           then ''VOTE: Guilty'' else ''VOTE: Not Guilty''))"

definition example_jury :: "int \<Rightarrow> bool \<Rightarrow> JuryProtocol" where
  "example_jury n hung = \<lparr>jury_max_rounds = n, required_consensus = 3 / 4, allow_hung_jury = hung\<rparr>"

definition empty_case :: jury_context where
  "empty_case = \<lparr>ctx_case_summary = None, ctx_evidence = None, ctx_charges = None,
                 ctx_verdict_options = None\<rparr>"

section \<open>Properties of the consensus calculator\<close>

lemma most_common_1_Nil: "most_common 1 c = [] \<longleftrightarrow> c = []"
  by (cases c) (auto simp: most_common_def take_Suc split: list.splits)

lemma sort_desc_head:
  fixes c :: counter
  assumes "sort_key (\<lambda>kv. - snd kv) c = (w, m) # rest"
  shows "(w, m) \<in> set c \<and> m = Max (snd ` set c)"
proof -
  let ?s = "sort_key (\<lambda>kv. - snd kv) c"
  have st: "set ?s = set c" by simp
  have mem: "(w, m) \<in> set c" using assms st by (metis list.set_intros(1))
  have "sorted (map (\<lambda>kv. - snd kv) ?s)" by (rule sorted_sort_key)
  hence "sorted (map (\<lambda>kv. - snd kv) ((w, m) # rest))" using assms by simp
  hence "\<forall>x \<in> set rest. - m \<le> - snd x" by simp
  hence "\<forall>x \<in> set rest. snd x \<le> m" by (simp only: neg_le_iff_le)
  hence "\<forall>x \<in> set ?s. snd x \<le> m" using assms by auto
  hence "\<forall>x \<in> set c. snd x \<le> m" using st by simp
  hence "\<forall>v \<in> snd ` set c. v \<le> m" by auto
  moreover have "m \<in> snd ` set c" using mem by force
  ultimately have "Max (snd ` set c) = m" by (intro Max_eqI) auto
  thus ?thesis using mem by simp
qed

lemma most_common_1_Cons:
  fixes c :: counter
  assumes "most_common 1 c = (w, m) # rest"
  shows "rest = [] \<and> (w, m) \<in> set c \<and> m = Max (snd ` set c)"
proof -
  obtain x xs where s: "sort_key (\<lambda>kv. - snd kv) c = x # xs"
    using assms by (cases "sort_key (\<lambda>kv. - snd kv) c") (auto simp: most_common_def)
  with assms have x: "x = (w, m)" and r: "rest = []" by (auto simp: most_common_def)
  from s x have "sort_key (\<lambda>kv. - snd kv) c = (w, m) # xs" by simp
  from sort_desc_head[OF this] r show ?thesis by blast
qed

lemma sorted_desc_top_two:
  fixes a b :: "string \<times> int"
  assumes "sorted (map (\<lambda>kv. - snd kv) (a # b # rest))"
  shows "(snd a = snd b) = (2 \<le> length (filter (\<lambda>kv. snd kv = snd a) (a # b # rest)))"
proof (cases "snd a = snd b")
  case True
  then show ?thesis by simp
next
  case False
  from assms have "\<forall>x \<in> set rest. snd x \<le> snd b" and "snd b \<le> snd a" by auto
  with False have "\<forall>x \<in> set rest. snd x \<noteq> snd a" by auto
  hence "filter (\<lambda>kv. snd kv = snd a) rest = []" by (simp add: filter_empty_conv)
  with False show ?thesis by auto
qed

lemma top_two_tied_iff:
  "top_two_tied c = (2 \<le> length (filter (\<lambda>kv. snd kv = Max (snd ` set c)) c))"
proof -
  let ?f = "\<lambda>kv::string \<times> int. - snd kv"
  let ?s = "sort_key ?f c"
  let ?P = "\<lambda>kv::string \<times> int. snd kv = Max (snd ` set c)"
  have len: "length (filter ?P c) = length (filter ?P ?s)"
    by (simp add: filter_sort)
  have srt: "sorted (map ?f ?s)" by (rule sorted_sort_key)
  show ?thesis
  proof (cases ?s)
    case Nil
    then show ?thesis using len by (simp add: top_two_tied_def most_common_def)
  next
    case (Cons a t)
    obtain w m where a: "a = (w, m)" by (cases a)
    from sort_desc_head[of c w m t] Cons a have M: "Max (snd ` set c) = snd a" by simp
    show ?thesis
    proof (cases t)
      case Nil
      with Cons len show ?thesis by (simp add: top_two_tied_def most_common_def)
    next
      case (Cons b rest)
      with \<open>?s = a # t\<close> have s: "?s = a # b # rest" by simp
      from srt s have "sorted (map ?f (a # b # rest))" by simp
      from sorted_desc_top_two[OF this] 
      have "(snd a = snd b) = (2 \<le> length (filter ?P ?s))" using M s by simp
      moreover have "top_two_tied c = (snd a = snd b)"
        using s by (simp add: top_two_tied_def most_common_def)
      ultimately show ?thesis using len by simp
    qed
  qed
qed

lemma counter_incr_sum: "sum_list (map snd (counter_incr k c)) = sum_list (map snd c) + 1"
  by (induction k c rule: counter_incr.induct) auto

lemma counter_incr_pos: "\<forall>kv \<in> set c. 0 < snd kv \<Longrightarrow> \<forall>kv \<in> set (counter_incr k c). 0 < snd kv"
  by (induction k c rule: counter_incr.induct) auto

lemma foldl_counter_sum:
  "sum_list (map snd (foldl (\<lambda>c k. counter_incr k c) c0 xs)) = sum_list (map snd c0) + int (length xs)"
  by (induction xs arbitrary: c0) (auto simp: counter_incr_sum)

lemma foldl_counter_pos:
  "\<forall>kv \<in> set c0. 0 < snd kv \<Longrightarrow> \<forall>kv \<in> set (foldl (\<lambda>c k. counter_incr k c) c0 xs). 0 < snd kv"
proof (induction xs arbitrary: c0)
  case Nil
  then show ?case by simp
next
  case (Cons x xs)
  have "\<forall>kv \<in> set (counter_incr x c0). 0 < snd kv"
    by (rule counter_incr_pos) (rule Cons.prems)
  from Cons.IH[OF this] show ?case by simp
qed

lemma Counter_sum: "sum_list (map snd (Counter xs)) = int (length xs)"
  by (simp add: Counter_def foldl_counter_sum)

lemma Counter_pos: "\<forall>kv \<in> set (Counter xs). 0 < snd kv"
  unfolding Counter_def by (rule foldl_counter_pos) simp

lemma Counter_Nil_iff: "Counter xs = [] \<longleftrightarrow> xs = []"
  using Counter_sum[of xs] by (cases xs) (auto simp: Counter_def)

lemma Counter_le_length: "kv \<in> set (Counter xs) \<Longrightarrow> snd kv \<le> int (length xs)"
proof -
  assume m: "kv \<in> set (Counter xs)"
  have "\<forall>x \<in> set (map snd (Counter xs)). 0 \<le> x" using Counter_pos[of xs] by auto
  hence "snd kv \<le> sum_list (map snd (Counter xs))"
    using m by (intro member_le_sum_list) auto
  thus ?thesis by (simp add: Counter_sum)
qed


lemma simple_majority_Inr:
  assumes "simple_majority vc total_v bd = Inr r"
  shows "tied r = top_two_tied vc"
    and "is_decisive r = (real_of_int (Max (snd ` set vc)) > real_of_int total_v / 2 \<and> \<not> tied r)"
    and "confidence r = Some (if tied r then 1 / 2
                              else real_of_int (Max (snd ` set vc)) / real_of_int total_v)"
    and "\<not> tied r \<longrightarrow> total_v \<noteq> 0"
proof -
  from assms obtain w m rest where mc: "most_common 1 vc = (w, m) # rest"
    by (cases "most_common 1 vc") (auto simp: simple_majority_def)
  from most_common_1_Cons[OF mc] have m: "m = Max (snd ` set vc)" by simp
  from assms mc have r: "r = \<lparr>winner = w, vote_counts = vc, total_votes = total_v,
                        consensus_type = SIMPLE_MAJORITY,
                        is_decisive = (real_of_int m > real_of_int total_v / 2 \<and> \<not> top_two_tied vc),
                        tied = top_two_tied vc,
                        confidence = Some (if \<not> top_two_tied vc
                                           then real_of_int m / real_of_int total_v
                                           else 1 / 2),
                        breakdown = bd\<rparr>" and z: "\<not> top_two_tied vc \<longrightarrow> total_v \<noteq> 0"
    by (auto simp: simple_majority_def Let_def split: if_splits)
  show "tied r = top_two_tied vc" using r by simp
  show "is_decisive r = (real_of_int (Max (snd ` set vc)) > real_of_int total_v / 2 \<and> \<not> tied r)"
    using r m by simp
  show "confidence r = Some (if tied r then 1 / 2
                              else real_of_int (Max (snd ` set vc)) / real_of_int total_v)"
    using r m by simp
  show "\<not> tied r \<longrightarrow> total_v \<noteq> 0" using r z by simp
qed

text \<open>
  C1 (as amended). For every simple-majority result the confidence is \<open>0.5\<close> when the
  result is tied and \<open>max_count / total\<close> when it is not tied, whether or not it is
  decisive; a result is tied when at least two options carry the top count, and
  decisive when the top count exceeds half the total and there is no tie. In
  particular a decisive result has confidence \<open>max_count / total\<close>, and so has a result
  that is neither tied nor decisive.
\<close>

theorem simple_majority_confidence:
  assumes "simple_majority vc total_v bd = Inr r"
  shows "tied r = (2 \<le> length (filter (\<lambda>kv. snd kv = Max (snd ` set vc)) vc)) \<and>
         is_decisive r = (real_of_int (Max (snd ` set vc)) > real_of_int total_v / 2 \<and> \<not> tied r) \<and>
         confidence r = Some (if tied r then 1 / 2
                              else real_of_int (Max (snd ` set vc)) / real_of_int total_v)"
  using simple_majority_Inr[OF assms] by (simp add: top_two_tied_iff)

theorem simple_majority_confidence_witness:
  "\<not> isl (simple_majority [(''A'', 3), (''B'', 2)] 5 []) \<and>
   is_decisive (projr (simple_majority [(''A'', 3), (''B'', 2)] 5 [])) \<and>
   \<not> tied (projr (simple_majority [(''A'', 3), (''B'', 2)] 5 [])) \<and>
   confidence (projr (simple_majority [(''A'', 3), (''B'', 2)] 5 [])) = Some (3 / 5)"
proof -
  let ?x = "simple_majority [(''A'', 3), (''B'', 2)] 5 []"
  have e: "?x = Inr (projr ?x)"
    by (simp add: simple_majority_def top_two_tied_def most_common_def sort_key_def)
  have n: "\<not> isl ?x" by (subst e) simp
  from simple_majority_confidence[OF e] n show ?thesis by simp
qed

text \<open>
  C1 as stated fails: with the tally \<open>{A: 2, B: 1, C: 1, D: 1}\<close> of five votes the result
  is neither tied nor decisive (2 does not exceed 2.5), and its confidence is
  \<open>2/5\<close>, not \<open>0.5\<close>.
\<close>

theorem simple_majority_confidence_counterexample:
  "\<not> isl (simple_majority [(''A'', 2), (''B'', 1), (''C'', 1), (''D'', 1)] 5 []) \<and>
   \<not> is_decisive (projr (simple_majority [(''A'', 2), (''B'', 1), (''C'', 1), (''D'', 1)] 5 [])) \<and>
   confidence (projr (simple_majority [(''A'', 2), (''B'', 1), (''C'', 1), (''D'', 1)] 5 []))
     = Some (2 / 5) \<and>
   confidence (projr (simple_majority [(''A'', 2), (''B'', 1), (''C'', 1), (''D'', 1)] 5 []))
     \<noteq> Some (1 / 2)"
  by (simp add: simple_majority_def top_two_tied_def most_common_def sort_key_def)


text \<open>
  C6. For every supermajority result, \<open>is_decisive\<close> holds exactly when
  \<open>max_count \<ge> (2/3) * total\<close>, the boundary included, and the confidence is
  \<open>max_count / total\<close> whether or not the result is decisive. (The source compares
  \<open>max_votes\<close> with \<open>(2 * total_votes) / 3\<close>; \<open>max_count\<close> is the largest count of the
  tally.)
\<close>

theorem supermajority_decisive_iff:
  assumes "supermajority vc total_v bd = Inr r"
  shows "is_decisive r = (real_of_int (Max (snd ` set vc)) \<ge> (2 / 3) * real_of_int total_v) \<and>
         confidence r = Some (real_of_int (Max (snd ` set vc)) / real_of_int total_v)"
proof -
  from assms obtain w m rest where mc: "most_common 1 vc = (w, m) # rest"
    by (cases "most_common 1 vc") (auto simp: supermajority_def)
  from most_common_1_Cons[OF mc] have m: "m = Max (snd ` set vc)" by simp
  from assms mc have "is_decisive r = (real_of_int m \<ge> real_of_int (2 * total_v) / 3)"
    and "confidence r = Some (real_of_int m / real_of_int total_v)"
    by (auto simp: supermajority_def Let_def split: if_splits)
  with m show ?thesis by simp
qed

theorem supermajority_decisive_iff_witness:
  "\<not> isl (supermajority [(''A'', 4), (''B'', 2)] 6 []) \<and>
   is_decisive (projr (supermajority [(''A'', 4), (''B'', 2)] 6 [])) \<and>
   confidence (projr (supermajority [(''A'', 4), (''B'', 2)] 6 [])) = Some (4 / 6) \<and>
   \<not> isl (supermajority [(''A'', 3), (''B'', 2)] 5 []) \<and>
   \<not> is_decisive (projr (supermajority [(''A'', 3), (''B'', 2)] 5 [])) \<and>
   confidence (projr (supermajority [(''A'', 3), (''B'', 2)] 5 [])) = Some (3 / 5)"
proof -
  let ?x = "supermajority [(''A'', 4), (''B'', 2)] 6 []"
  let ?y = "supermajority [(''A'', 3), (''B'', 2)] 5 []"
  have ex: "?x = Inr (projr ?x)"
    by (simp add: supermajority_def most_common_def sort_key_def)
  have ey: "?y = Inr (projr ?y)"
    by (simp add: supermajority_def most_common_def sort_key_def)
  have nx: "\<not> isl ?x" by (subst ex) simp
  have ny: "\<not> isl ?y" by (subst ey) simp
  from supermajority_decisive_iff[OF ex] supermajority_decisive_iff[OF ey] nx ny
  show ?thesis by simp
qed


lemma Max_Counter_le:
  assumes "xs \<noteq> []"
  shows "Max (snd ` set (Counter xs)) \<le> int (length xs)"
proof -
  have ne: "Counter xs \<noteq> []" using assms by (simp add: Counter_Nil_iff)
  hence "Max (snd ` set (Counter xs)) \<in> snd ` set (Counter xs)"
    by (intro Max_in) auto
  then obtain kv where "kv \<in> set (Counter xs)" and "snd kv = Max (snd ` set (Counter xs))"
    by auto
  with Counter_le_length[of kv xs] show ?thesis by simp
qed

lemma unanimous_Inr:
  assumes "unanimous vc total_v bd = Inr r"
  shows "is_decisive r = (Max (snd ` set vc) = total_v)"
    and "confidence r = Some (if is_decisive r then 1
                              else real_of_int (Max (snd ` set vc)) / real_of_int total_v)"
    and "vote_counts r = vc" and "total_votes r = total_v" and "tied r = False"
    and "\<not> is_decisive r \<longrightarrow> total_v \<noteq> 0" and "vc \<noteq> []"
proof -
  from assms obtain w m rest where mc: "most_common 1 vc = (w, m) # rest"
    by (cases "most_common 1 vc") (auto simp: unanimous_def)
  from most_common_1_Cons[OF mc] have m: "m = Max (snd ` set vc)" by simp
  from assms mc have r: "r = \<lparr>winner = w, vote_counts = vc, total_votes = total_v,
                        consensus_type = UNANIMOUS,
                        is_decisive = (m = total_v),
                        tied = False,
                        confidence = Some (if m = total_v then 1
                                           else real_of_int m / real_of_int total_v),
                        breakdown = bd\<rparr>" and z: "m \<noteq> total_v \<longrightarrow> total_v \<noteq> 0"
    by (auto simp: unanimous_def Let_def split: if_splits)
  show "is_decisive r = (Max (snd ` set vc) = total_v)" using r m by simp
  show "confidence r = Some (if is_decisive r then 1
                              else real_of_int (Max (snd ` set vc)) / real_of_int total_v)"
    using r m by simp
  show "vote_counts r = vc" "total_votes r = total_v" "tied r = False" using r by simp_all
  show "\<not> is_decisive r \<longrightarrow> total_v \<noteq> 0" using r z by simp
  show "vc \<noteq> []" using mc by (auto simp: most_common_def)
qed

text \<open>
  C7. For every result of the unanimous rule, \<open>is_decisive\<close> holds exactly when
  \<open>max_count\<close> equals the total number of votes, the confidence is \<open>1.0\<close> exactly when
  the result is decisive, and otherwise it is \<open>max_count / total\<close>, which is below
  \<open>1.0\<close>. The result is the one \<open>_calculate_result\<close> produces from the collected votes:
  its tally is the count of the votes' choices and its total their number.
\<close>

theorem unanimous_decisive_iff:
  assumes "self_consensus_type self = UNANIMOUS"
      and "calculate_result self votes agents = Inr r"
  shows "vote_counts r = Counter (map choice votes) \<and>
         total_votes r = int (length votes) \<and>
         is_decisive r = (Max (snd ` set (vote_counts r)) = total_votes r) \<and>
         (confidence r = Some 1) = is_decisive r \<and>
         (if is_decisive r then confidence r = Some 1
          else confidence r = Some (real_of_int (Max (snd ` set (vote_counts r)))
                                     / real_of_int (total_votes r)) \<and>
               real_of_int (Max (snd ` set (vote_counts r))) / real_of_int (total_votes r) < 1)"
proof -
  let ?vc = "Counter (map choice votes)"
  let ?n = "int (length votes)"
  let ?M = "Max (snd ` set ?vc)"
  from assms obtain bd where u: "unanimous ?vc ?n bd = Inr r"
    by (auto simp: calculate_result_def Let_def)
  note f = unanimous_Inr[OF u]
  have ne: "votes \<noteq> []" using f(7) by (auto simp: Counter_def)
  have le: "?M \<le> ?n" using Max_Counter_le[of "map choice votes"] ne by simp
  have pos: "0 < ?n" using ne by simp
  have lt: "?M \<noteq> ?n \<Longrightarrow> real_of_int ?M / real_of_int ?n < 1"
  proof -
    assume "?M \<noteq> ?n"
    with le have "?M < ?n" by simp
    hence "real_of_int ?M < real_of_int ?n" by simp
    thus ?thesis using pos by simp
  qed
  have c1: "(confidence r = Some 1) = is_decisive r"
  proof (cases "is_decisive r")
    case True
    then show ?thesis using f(2) by simp
  next
    case False
    hence neq: "?M \<noteq> ?n" using f(1) by simp
    define q where "q = real_of_int ?M / real_of_int ?n"
    from lt[OF neq] have "q \<noteq> 1" unfolding q_def by linarith
    moreover from False f(2) have "confidence r = Some q" unfolding q_def by simp
    ultimately show ?thesis using False by simp
  qed
  show ?thesis using f(1,2,3,4) c1 lt by auto
qed

theorem unanimous_decisive_iff_witness:
  "\<not> isl (calculate_result \<lparr>self_consensus_type = UNANIMOUS, allow_abstention = False,
                             require_reasoning = True\<rparr>
            [example_vote ''a'' ''Yes'', example_vote ''b'' ''Yes'', example_vote ''c'' ''No'']
            [example_agent ''a'', example_agent ''b'', example_agent ''c'']) \<and>
   \<not> is_decisive (projr (calculate_result \<lparr>self_consensus_type = UNANIMOUS,
                             allow_abstention = False, require_reasoning = True\<rparr>
            [example_vote ''a'' ''Yes'', example_vote ''b'' ''Yes'', example_vote ''c'' ''No'']
            [example_agent ''a'', example_agent ''b'', example_agent ''c''])) \<and>
   confidence (projr (calculate_result \<lparr>self_consensus_type = UNANIMOUS,
                             allow_abstention = False, require_reasoning = True\<rparr>
            [example_vote ''a'' ''Yes'', example_vote ''b'' ''Yes'', example_vote ''c'' ''No'']
            [example_agent ''a'', example_agent ''b'', example_agent ''c''])) = Some (2 / 3) \<and>
   is_decisive (projr (calculate_result \<lparr>self_consensus_type = UNANIMOUS,
                             allow_abstention = False, require_reasoning = True\<rparr>
            [example_vote ''a'' ''Yes'', example_vote ''b'' ''Yes'']
            [example_agent ''a'', example_agent ''b''])) \<and>
   confidence (projr (calculate_result \<lparr>self_consensus_type = UNANIMOUS,
                             allow_abstention = False, require_reasoning = True\<rparr>
            [example_vote ''a'' ''Yes'', example_vote ''b'' ''Yes'']
            [example_agent ''a'', example_agent ''b''])) = Some 1"
proof -
  let ?p = "\<lparr>self_consensus_type = UNANIMOUS, allow_abstention = False,
             require_reasoning = True\<rparr>"
  let ?x = "calculate_result ?p
            [example_vote ''a'' ''Yes'', example_vote ''b'' ''Yes'', example_vote ''c'' ''No'']
            [example_agent ''a'', example_agent ''b'', example_agent ''c'']"
  let ?y = "calculate_result ?p
            [example_vote ''a'' ''Yes'', example_vote ''b'' ''Yes'']
            [example_agent ''a'', example_agent ''b'']"
  have p: "self_consensus_type ?p = UNANIMOUS" by simp
  have ex: "?x = Inr (projr ?x)"
    by (simp add: calculate_result_def unanimous_def most_common_def sort_key_def Counter_def
        example_vote_def)
  have ey: "?y = Inr (projr ?y)"
    by (simp add: calculate_result_def unanimous_def most_common_def sort_key_def Counter_def
        example_vote_def)
  have nx: "\<not> isl ?x" by (subst ex) simp
  from unanimous_decisive_iff[OF p ex] unanimous_decisive_iff[OF p ey] nx
  show ?thesis by (simp add: Counter_def example_vote_def split: if_splits)
qed


lemma simple_majority_tied: "simple_majority vc total_v bd = Inr r \<Longrightarrow> tied r \<Longrightarrow> \<not> is_decisive r"
  by (auto simp: simple_majority_def Let_def split: list.splits if_splits)

lemma supermajority_tied: "supermajority vc total_v bd = Inr r \<Longrightarrow> \<not> tied r"
  by (auto simp: supermajority_def Let_def split: list.splits if_splits)

lemma plurality_tied: "plurality vc total_v bd = Inr r \<Longrightarrow> tied r \<Longrightarrow> \<not> is_decisive r"
  by (auto simp: plurality_def Let_def split: list.splits if_splits)

lemma weighted_tied: "weighted votes bd = Inr r \<Longrightarrow> \<not> tied r"
  by (auto simp: weighted_def Let_def split: sum.splits if_splits)

lemma calculate_result_tied:
  assumes "calculate_result self votes agents = Inr r" and "tied r"
  shows "\<not> is_decisive r"
proof (cases "self_consensus_type self")
  case UNANIMOUS
  with assms(1) obtain bd where "unanimous (Counter (map choice votes)) (int (length votes)) bd = Inr r"
    by (auto simp: calculate_result_def Let_def)
  from unanimous_Inr(5)[OF this] assms(2) show ?thesis by simp
next
  case SIMPLE_MAJORITY
  with assms(1) obtain bd where "simple_majority (Counter (map choice votes)) (int (length votes)) bd = Inr r"
    by (auto simp: calculate_result_def Let_def)
  from simple_majority_tied[OF this assms(2)] show ?thesis .
next
  case SUPERMAJORITY
  with assms(1) obtain bd where "supermajority (Counter (map choice votes)) (int (length votes)) bd = Inr r"
    by (auto simp: calculate_result_def Let_def)
  from supermajority_tied[OF this] assms(2) show ?thesis by simp
next
  case PLURALITY
  with assms(1) obtain bd where "plurality (Counter (map choice votes)) (int (length votes)) bd = Inr r"
    by (auto simp: calculate_result_def Let_def)
  from plurality_tied[OF this assms(2)] show ?thesis .
next
  case WEIGHTED
  with assms(1) obtain bd where "weighted votes bd = Inr r"
    by (auto simp: calculate_result_def Let_def)
  from weighted_tied[OF this] assms(2) show ?thesis by simp
next
  case RANKED_CHOICE
  with assms(1) obtain bd where "simple_majority (Counter (map choice votes)) (int (length votes)) bd = Inr r"
    by (auto simp: calculate_result_def Let_def)
  from simple_majority_tied[OF this assms(2)] show ?thesis .
qed

text \<open>
  C8. Every result that \<open>_calculate_result\<close> produces, under whichever consensus rule the
  protocol is configured with, has \<open>is_decisive = false\<close> whenever \<open>tied = true\<close>. For
  simple majority on any tally: when the top two counts are equal (at least two options
  carry the largest count), \<open>tied = true\<close> and \<open>is_decisive = false\<close>, whatever share of
  the total that count is.
\<close>

theorem tied_never_decisive:
  "(calculate_result self votes agents = Inr r \<longrightarrow> tied r \<longrightarrow> \<not> is_decisive r) \<and>
   (simple_majority vc total_v bd = Inr r' \<longrightarrow>
      2 \<le> length (filter (\<lambda>kv. snd kv = Max (snd ` set vc)) vc) \<longrightarrow>
      tied r' \<and> \<not> is_decisive r')"
proof (intro conjI impI)
  assume "calculate_result self votes agents = Inr r" and "tied r"
  thus "\<not> is_decisive r" by (rule calculate_result_tied)
next
  assume a: "simple_majority vc total_v bd = Inr r'"
     and b: "2 \<le> length (filter (\<lambda>kv. snd kv = Max (snd ` set vc)) vc)"
  from simple_majority_Inr(1)[OF a] b show "tied r'" by (simp add: top_two_tied_iff)
  from simple_majority_tied[OF a this] show "\<not> is_decisive r'" .
qed

theorem tied_never_decisive_witness:
  "\<not> isl (calculate_result \<lparr>self_consensus_type = PLURALITY, allow_abstention = False,
                             require_reasoning = True\<rparr>
            [example_vote ''a'' ''Yes'', example_vote ''b'' ''No'']
            [example_agent ''a'', example_agent ''b'']) \<and>
   tied (projr (calculate_result \<lparr>self_consensus_type = PLURALITY, allow_abstention = False,
                             require_reasoning = True\<rparr>
            [example_vote ''a'' ''Yes'', example_vote ''b'' ''No'']
            [example_agent ''a'', example_agent ''b''])) \<and>
   \<not> is_decisive (projr (calculate_result \<lparr>self_consensus_type = PLURALITY,
                             allow_abstention = False, require_reasoning = True\<rparr>
            [example_vote ''a'' ''Yes'', example_vote ''b'' ''No'']
            [example_agent ''a'', example_agent ''b''])) \<and>
   \<not> isl (simple_majority [(''A'', 3), (''B'', 3), (''C'', 1)] 7 []) \<and>
   2 \<le> length (filter (\<lambda>kv. snd kv = Max (snd ` set [(''A'', 3), (''B'', 3), (''C'', 1 :: int)]))
                 [(''A'', 3), (''B'', 3), (''C'', 1)]) \<and>
   tied (projr (simple_majority [(''A'', 3), (''B'', 3), (''C'', 1)] 7 [])) \<and>
   \<not> is_decisive (projr (simple_majority [(''A'', 3), (''B'', 3), (''C'', 1)] 7 []))"
proof -
  let ?p = "\<lparr>self_consensus_type = PLURALITY, allow_abstention = False,
             require_reasoning = True\<rparr>"
  let ?vs = "[example_vote ''a'' ''Yes'', example_vote ''b'' ''No'']"
  let ?as = "[example_agent ''a'', example_agent ''b'']"
  let ?x = "calculate_result ?p ?vs ?as"
  let ?vc = "[(''A'', 3), (''B'', 3), (''C'', 1 :: int)]"
  let ?y = "simple_majority ?vc 7 []"
  have ex: "?x = Inr (projr ?x)"
    by (simp add: calculate_result_def plurality_def top_two_tied_def most_common_def
        sort_key_def Counter_def example_vote_def)
  have ey: "?y = Inr (projr ?y)"
    by (simp add: simple_majority_def top_two_tied_def most_common_def sort_key_def)
  have nx: "\<not> isl ?x" by (subst ex) simp
  have ny: "\<not> isl ?y" by (subst ey) simp
  have tx: "tied (projr ?x)"
    by (simp add: calculate_result_def plurality_def top_two_tied_def most_common_def
        sort_key_def Counter_def example_vote_def)
  have h: "2 \<le> length (filter (\<lambda>kv. snd kv = Max (snd ` set ?vc)) ?vc)" by simp
  from tied_never_decisive[of ?p ?vs ?as "projr ?x" ?vc 7 "[]" "projr ?y"] ex ey tx h nx ny
  show ?thesis by simp
qed


section \<open>Properties of vote parsing and of the voting protocol\<close>

lemma structured_vote_no_marker:
  "\<not> contains ''VOTE:'' (upper response) \<Longrightarrow> structured_vote response opts = (None, None)"
  by (simp add: structured_vote_def)

text \<open>
  C9. When none of the three parsing tiers yields a vote for a response (the structured
  \<^verbatim>\<open>VOTE:\<close> line, the mention of an option's text, the option number in the first 50
  characters: each leaves the choice \<^verbatim>\<open>None\<close> or empty), \<open>_parse_vote\<close> returns the choice
  \<^verbatim>\<open>"ABSTAIN"\<close> when abstention is allowed and the first listed option otherwise. The
  option list is not empty, as \<open>execute\<close> guarantees before it collects votes.
\<close>

theorem parse_vote_fallback:
  assumes "falsy (fst (structured_vote response opts))"
      and "falsy (mentioned_option response opts)"
      and "falsy (numbered_option response opts)"
      and "opts \<noteq> []"
  shows "parse_vote self response opts =
           Inr \<lparr>choice = (if allow_abstention self then ''ABSTAIN'' else hd opts),
                reasoning = snd (structured_vote response opts),
                raw_response = response\<rparr>"
proof -
  let ?c1 = "fst (structured_vote response opts)"
  let ?c2 = "(if falsy ?c1
                then (case mentioned_option response opts of None \<Rightarrow> ?c1 | Some opt \<Rightarrow> Some opt)
                else ?c1)"
  let ?c3 = "(if falsy ?c2
                then (case numbered_option response opts of None \<Rightarrow> ?c2 | Some opt \<Rightarrow> Some opt)
                else ?c2)"
  have c2: "falsy ?c2" using assms(1,2) by (auto simp: falsy_def split: option.splits)
  have c3: "falsy ?c3" using c2 assms(3) by (auto simp: falsy_def split: option.splits)
  obtain first rest where o: "opts = first # rest" using assms(4) by (cases opts) auto
  have "parse_vote self response opts =
          (if falsy ?c3
           then (if allow_abstention self
                 then Inr \<lparr>choice = ''ABSTAIN'', reasoning = snd (structured_vote response opts),
                           raw_response = response\<rparr>
                 else (case opts of
                         [] \<Rightarrow> Inl IndexError
                       | first # _ \<Rightarrow>
                           Inr \<lparr>choice = first, reasoning = snd (structured_vote response opts),
                                raw_response = response\<rparr>))
           else Inr \<lparr>choice = the ?c3, reasoning = snd (structured_vote response opts),
                     raw_response = response\<rparr>)"
    by (simp add: parse_vote_def Let_def)
  also have "\<dots> = Inr \<lparr>choice = (if allow_abstention self then ''ABSTAIN'' else hd opts),
                reasoning = snd (structured_vote response opts),
                raw_response = response\<rparr>"
    using c3 o by simp
  finally show ?thesis .
qed

theorem parse_vote_fallback_witness:
  "parse_vote \<lparr>self_consensus_type = SIMPLE_MAJORITY, allow_abstention = True,
               require_reasoning = True\<rparr> ''I am undecided'' [''Yes'', ''No'']
     = Inr \<lparr>choice = ''ABSTAIN'', reasoning = None, raw_response = ''I am undecided''\<rparr> \<and>
   parse_vote \<lparr>self_consensus_type = SIMPLE_MAJORITY, allow_abstention = False,
               require_reasoning = True\<rparr> ''I am undecided'' [''Yes'', ''No'']
     = Inr \<lparr>choice = ''Yes'', reasoning = None, raw_response = ''I am undecided''\<rparr>"
proof -
  let ?r = "''I am undecided''"
  let ?o = "[''Yes'', ''No'']"
  have nm: "\<not> contains ''VOTE:'' (upper ?r)" by code_simp
  have sv: "structured_vote ?r ?o = (None, None)"
    by (rule structured_vote_no_marker) (rule nm)
  have h1: "falsy (fst (structured_vote ?r ?o))" by (simp add: sv falsy_def)
  have h2: "falsy (mentioned_option ?r ?o)" by code_simp
  have h3: "falsy (numbered_option ?r ?o)" by code_simp
  have h4: "?o \<noteq> []" by simp
  from parse_vote_fallback[OF h1 h2 h3 h4, of "\<lparr>self_consensus_type = SIMPLE_MAJORITY,
         allow_abstention = True, require_reasoning = True\<rparr>"]
       parse_vote_fallback[OF h1 h2 h3 h4, of "\<lparr>self_consensus_type = SIMPLE_MAJORITY,
         allow_abstention = False, require_reasoning = True\<rparr>"]
  show ?thesis by (simp add: sv)
qed


text \<open>
  C10. With a valid participant list (at least two agents) and an option list that is
  missing from the context or empty, \<open>VotingProtocol.execute\<close> raises \<^verbatim>\<open>ValueError\<close> and
  leaves the run as it was: no participant has been consulted, the completion flag and
  the recorded result are unchanged (so a flag that was false stays false).
\<close>

theorem voting_execute_no_options:
  assumes "2 \<le> length agents"
      and "ctx_options ctx = None \<or> ctx_options ctx = Some []"
  shows "voting_execute orc self agents ctx w = (Inl ValueError, w)"
  using assms by (auto simp: voting_execute_def voting_validate_participation_def)

theorem voting_execute_no_options_witness:
  "voting_execute (\<lambda>cs. ''VOTE: 1'')
      \<lparr>self_consensus_type = SIMPLE_MAJORITY, allow_abstention = False, require_reasoning = True\<rparr>
      [example_agent ''a'', example_agent ''b'']
      \<lparr>ctx_question = Some ''Raise prices?'', ctx_options = None, ctx_background = None\<rparr>
      fresh_run = (Inl ValueError, fresh_run) \<and>
   voting_execute (\<lambda>cs. ''VOTE: 1'')
      \<lparr>self_consensus_type = SIMPLE_MAJORITY, allow_abstention = False, require_reasoning = True\<rparr>
      [example_agent ''a'', example_agent ''b'']
      \<lparr>ctx_question = Some ''Raise prices?'', ctx_options = Some [], ctx_background = None\<rparr>
      fresh_run = (Inl ValueError, fresh_run) \<and>
   \<not> is_complete (state (fresh_run :: VotingResult run)) \<and>
   result (state (fresh_run :: VotingResult run)) = None \<and>
   calls (fresh_run :: VotingResult run) = []"
proof -
  have l: "2 \<le> length [example_agent ''a'', example_agent ''b'']" by simp
  have o1: "ctx_options \<lparr>ctx_question = Some ''Raise prices?'', ctx_options = None,
              ctx_background = None\<rparr> = None \<or>
            ctx_options \<lparr>ctx_question = Some ''Raise prices?'', ctx_options = None,
              ctx_background = None\<rparr> = Some []" by simp
  have o2: "ctx_options \<lparr>ctx_question = Some ''Raise prices?'', ctx_options = Some [],
              ctx_background = None\<rparr> = None \<or>
            ctx_options \<lparr>ctx_question = Some ''Raise prices?'', ctx_options = Some [],
              ctx_background = None\<rparr> = Some []" by simp
  from voting_execute_no_options[OF l o1] voting_execute_no_options[OF l o2]
  show ?thesis by (simp add: fresh_run_def)
qed


section \<open>Properties of the negotiation protocol\<close>

text \<open>
  C2 does not hold of the code. The claim is that every successful negotiation ends at a
  price between the seller's reserve and the buyer's maximum, with non-negative savings
  and premium. With reserve 5 and maximum 5 the opening ask 7.5 and bid 3 are within the
  convergence threshold 5, and the run succeeds at once at their midpoint 5.25, above
  the buyer's maximum. With reserve 100 and maximum 100 the run succeeds in round 4 at
  a price above 102, again above the maximum. With reserve 100 and maximum 1000 the
  opening ask 150 lies below the opening bid 600; the run succeeds in round 5 at a
  price above the opening ask and below the opening bid, so savings and premium are
  both negative.
\<close>

theorem negotiation_success_outside_limits:
  "\<not> isl (example_negotiation 5 5) \<and>
   outcome (projr (example_negotiation 5 5)) = SUCCESS \<and>
   neg_rounds_taken (projr (example_negotiation 5 5)) = 0 \<and>
   final_price (projr (example_negotiation 5 5)) = Some (21 / 4) \<and>
   (5 :: real) < 21 / 4 \<and>
   \<not> isl (example_negotiation 100 100) \<and>
   outcome (projr (example_negotiation 100 100)) = SUCCESS \<and>
   neg_rounds_taken (projr (example_negotiation 100 100)) = 4 \<and>
   final_price (projr (example_negotiation 100 100)) = Some (3994762259 / 39062500) \<and>
   (100 :: real) < 3994762259 / 39062500 \<and>
   \<not> isl (example_negotiation 100 1000) \<and>
   outcome (projr (example_negotiation 100 1000)) = SUCCESS \<and>
   savings (projr (example_negotiation 100 1000)) = Some (- (11532749202 / 48828125)) \<and>
   premium (projr (example_negotiation 100 1000)) = Some (- (10439907048 / 48828125))"
proof -
  have a: "example_negotiation 5 5 =
             Inr (create_success_result (example_agent ''buyer'') (example_agent ''seller'')
                    ''Product'' (21 / 4) (15 / 2) 3
                    [\<lparr>offer_round = 0, offer_agent_id = ''seller'', role = ''seller'',
                       price = 15 / 2, message = ''Initial ask''\<rparr>,
                     \<lparr>offer_round = 0, offer_agent_id = ''buyer'', role = ''buyer'',
                       price = 3, message = ''Initial bid''\<rparr>])"
    by (simp add: example_negotiation_def negotiation_execute_def default_negotiation_def
        negotiation_validate_participation_def py_index_def get_item_def get_seller_index_def
        get_seller_reserve_def get_buyer_max_def get_initial_ask_def get_initial_bid_def
        example_agent_def Let_def)
  have b: "outcome (projr (example_negotiation 100 100)) = SUCCESS \<and>
           \<not> isl (example_negotiation 100 100) \<and>
           neg_rounds_taken (projr (example_negotiation 100 100)) = 4 \<and>
           final_price (projr (example_negotiation 100 100)) = Some (3994762259 / 39062500)"
    by (simp add: example_negotiation_def negotiation_execute_def default_negotiation_def
        negotiation_validate_participation_def py_index_def get_item_def get_seller_index_def
        get_seller_reserve_def get_buyer_max_def get_initial_ask_def get_initial_bid_def
        seller_counter_def buyer_counter_def create_success_result_def
        example_agent_def Let_def numeral_nat)
  have c: "outcome (projr (example_negotiation 100 1000)) = SUCCESS \<and>
           \<not> isl (example_negotiation 100 1000) \<and>
           savings (projr (example_negotiation 100 1000)) = Some (- (11532749202 / 48828125)) \<and>
           premium (projr (example_negotiation 100 1000)) = Some (- (10439907048 / 48828125))"
    by (simp add: example_negotiation_def negotiation_execute_def default_negotiation_def
        negotiation_validate_participation_def py_index_def get_item_def get_seller_index_def
        get_seller_reserve_def get_buyer_max_def get_initial_ask_def get_initial_bid_def
        seller_counter_def buyer_counter_def create_success_result_def
        example_agent_def Let_def numeral_nat)
  show ?thesis using a b c by (simp add: create_success_result_def)
qed


text \<open>
  C3. In a negotiation between exactly two participants, one the seller and the other
  the buyer (seller index 0 or 1), with \<open>seller_reserve > buyer_max\<close>, \<open>execute\<close> returns a
  result, not an exception: outcome \<open>failure\<close>, \<open>rounds_taken = 0\<close>, no offers, no final
  price. The run is returned as it was given, so no \<^verbatim>\<open>think\<close> call has been made.
\<close>

theorem negotiation_no_agreement_zone:
  assumes "length agents = 2"
      and "get_seller_index ctx = 0 \<or> get_seller_index ctx = 1"
      and "get_seller_reserve ctx > get_buyer_max ctx"
  shows "negotiation_execute self agents ctx w =
           (Inr \<lparr>outcome = FAILURE, final_price = None, neg_rounds_taken = 0, offers = [],
                 buyer_id = name (agents ! nat (1 - get_seller_index ctx)),
                 seller_id = name (agents ! nat (get_seller_index ctx)),
                 item = get_item ctx,
                 initial_ask = get_seller_reserve ctx,
                 initial_bid = get_buyer_max ctx,
                 savings = None, premium = None\<rparr>, w)"
  using assms
  by (auto simp: negotiation_execute_def negotiation_validate_participation_def py_index_def
      Let_def)

theorem negotiation_no_agreement_zone_witness:
  "negotiation_execute default_negotiation
      [example_agent ''seller'', example_agent ''buyer'']
      \<lparr>ctx_item = Some ''Guitar'', ctx_seller_index = Some 0,
       ctx_seller_reserve = Some 300, ctx_buyer_max = Some 200\<rparr>
      fresh_run
   = (Inr \<lparr>outcome = FAILURE, final_price = None, neg_rounds_taken = 0, offers = [],
           buyer_id = ''buyer'', seller_id = ''seller'', item = ''Guitar'',
           initial_ask = 300, initial_bid = 200, savings = None, premium = None\<rparr>,
      fresh_run) \<and>
   calls (fresh_run :: NegotiationResult run) = []"
proof -
  let ?ags = "[example_agent ''seller'', example_agent ''buyer'']"
  let ?ctx = "\<lparr>ctx_item = Some ''Guitar'', ctx_seller_index = Some 0,
       ctx_seller_reserve = Some 300, ctx_buyer_max = Some (200 :: real)\<rparr>"
  have h1: "length ?ags = 2" by simp
  have h2: "get_seller_index ?ctx = 0 \<or> get_seller_index ?ctx = 1"
    by (simp add: get_seller_index_def)
  have h3: "get_seller_reserve ?ctx > get_buyer_max ?ctx"
    by (simp add: get_seller_reserve_def get_buyer_max_def)
  from negotiation_no_agreement_zone[OF h1 h2 h3]
  show ?thesis
    by (simp add: get_seller_index_def get_seller_reserve_def get_buyer_max_def get_item_def
        example_agent_def fresh_run_def)
qed


section \<open>Properties of the jury protocol\<close>

lemma counter_incr_not_Nil: "counter_incr k c \<noteq> []"
  by (cases c) (auto split: if_splits)

lemma jury_vote_loop_not_Nil:
  assumes "jury_vote_loop orc prompt label opts ags votes w = (Inr r, w')"
      and "ags \<noteq> [] \<or> votes \<noteq> []"
  shows "r \<noteq> []"
  using assms
proof (induction ags arbitrary: votes w)
  case Nil
  then show ?case by simp
next
  case (Cons a ags)
  obtain response w1 where t: "think orc a prompt label w = (response, w1)"
    by (cases "think orc a prompt label w")
  show ?case
  proof (cases "parse_jury_vote response opts")
    case (Inl e)
    with Cons.prems(1) t show ?thesis by simp
  next
    case (Inr v)
    with Cons.prems(1) t
    have "jury_vote_loop orc prompt label opts ags (counter_incr v votes)
            (log_response (name a) response (Some v) None w1) = (Inr r, w')"
      by simp
    from Cons.IH[OF this] show ?thesis by (simp add: counter_incr_not_Nil)
  qed
qed

lemma check_consensus_formula:
  assumes "votes \<noteq> []" and "n \<noteq> 0"
  shows "check_consensus self votes n =
           Inr (real_of_int (Max (set (map snd votes))) / real_of_int n \<ge> required_consensus self)"
  using assms by (simp add: check_consensus_def Let_def)

lemma check_consensus_twelve:
  assumes "required_consensus self = 3 / 4" and "votes \<noteq> []"
  shows "check_consensus self votes 12 = Inr (9 \<le> Max (set (map snd votes)))"
proof -
  let ?m = "Max (set (map snd votes))"
  have "(real_of_int ?m / 12 \<ge> 3 / 4) = (real_of_int ?m \<ge> 9)" by auto
  also have "\<dots> = (9 \<le> ?m)" by linarith
  finally show ?thesis
    using check_consensus_formula[OF assms(2), of 12 self] assms(1) by simp
qed

text \<open>What the deliberation loop returns, for the length of the trajectory.\<close>

lemma deliberation_rounds_length:
  assumes "deliberation_rounds orc self agents cs opts k rn cv traj ka w = (Inr v, w')"
      and "traj \<noteq> []" and "last traj = cv"
  shows "vote_trajectory v \<noteq> [] \<and> hd (vote_trajectory v) = hd traj \<and>
         last (vote_trajectory v) = final_vote_counts v \<and>
         ((\<not> consensus_reached v \<and> rounds_taken v = jury_max_rounds self \<and>
           length (vote_trajectory v) = length traj + k) \<or>
          (consensus_reached v \<and> rn \<le> rounds_taken v \<and>
           int (length (vote_trajectory v)) = int (length traj) + (rounds_taken v - rn) + 1))"
  using assms
proof (induction k arbitrary: rn cv traj ka w)
  case 0
  then show ?case by (auto simp: Let_def split: if_splits sum.splits)
next
  case (Suc k)
  obtain args w1 where d: "discussion_round orc agents cv cs rn w = (args, w1)"
    by (cases "discussion_round orc agents cv cs rn w")
  obtain rv w2 where r: "revote orc agents args opts w1 = (rv, w2)"
    by (cases "revote orc agents args opts w1")
  from Suc.prems(1) d r obtain nv where nv: "rv = Inr nv"
    by (cases rv) auto
  from Suc.prems(1) d r nv obtain b where
    c: "check_consensus self nv (int (length agents)) = Inr b"
    by (cases "check_consensus self nv (int (length agents))") auto
  show ?case
  proof (cases b)
    case True
    with Suc.prems(1) d r nv c obtain best where "max_key nv = Inr best"
      by (cases "max_key nv") auto
    with Suc.prems d r nv c True show ?thesis by (auto simp: hd_append Let_def)
  next
    case False
    with Suc.prems(1) d r nv c
    have rec: "deliberation_rounds orc self agents cs opts k (rn + 1) nv (traj @ [nv])
                 (ka @ args) w2 = (Inr v, w')"
      by (simp add: Let_def)
    have "traj @ [nv] \<noteq> []" "last (traj @ [nv]) = nv" by simp_all
    from Suc.IH[OF rec this] Suc.prems(2) show ?thesis by (auto simp: hd_append)
  qed
qed

text \<open>What the deliberation loop returns, for the consensus check along the trajectory.\<close>

lemma deliberation_rounds_check:
  assumes "deliberation_rounds orc self agents cs opts k rn cv traj ka w = (Inr v, w')"
      and "traj \<noteq> []" and "last traj = cv"
      and "\<forall>t \<in> set traj. check_consensus self t (int (length agents)) = Inr False"
  shows "consensus_reached v =
           (check_consensus self (final_vote_counts v) (int (length agents)) = Inr True) \<and>
         (\<forall>t \<in> set (butlast (vote_trajectory v)).
            check_consensus self t (int (length agents)) = Inr False)"
  using assms
proof (induction k arbitrary: rn cv traj ka w)
  case 0
  have "cv \<in> set traj" using "0.prems"(2,3) last_in_set by blast
  hence cf: "check_consensus self cv (int (length agents)) = Inr False"
    using "0.prems"(4) by blast
  have bl: "\<forall>t \<in> set (butlast traj). check_consensus self t (int (length agents)) = Inr False"
    using "0.prems"(4) by (meson in_set_butlastD)
  from "0.prems"(1) cf bl show ?case by (auto simp: Let_def split: if_splits sum.splits)
next
  case (Suc k)
  obtain args w1 where d: "discussion_round orc agents cv cs rn w = (args, w1)"
    by (cases "discussion_round orc agents cv cs rn w")
  obtain rv w2 where r: "revote orc agents args opts w1 = (rv, w2)"
    by (cases "revote orc agents args opts w1")
  from Suc.prems(1) d r obtain nv where nv: "rv = Inr nv"
    by (cases rv) auto
  from Suc.prems(1) d r nv obtain b where
    c: "check_consensus self nv (int (length agents)) = Inr b"
    by (cases "check_consensus self nv (int (length agents))") auto
  show ?case
  proof (cases b)
    case True
    with Suc.prems(1) d r nv c obtain best where "max_key nv = Inr best"
      by (cases "max_key nv") auto
    with Suc.prems d r nv c True show ?thesis by (auto simp: Let_def butlast_append)
  next
    case False
    with Suc.prems(1) d r nv c
    have rec: "deliberation_rounds orc self agents cs opts k (rn + 1) nv (traj @ [nv])
                 (ka @ args) w2 = (Inr v, w')"
      by (simp add: Let_def)
    have a: "traj @ [nv] \<noteq> []" "last (traj @ [nv]) = nv" by simp_all
    have b: "\<forall>t \<in> set (traj @ [nv]). check_consensus self t (int (length agents)) = Inr False"
      using Suc.prems(4) c False by auto
    from Suc.IH[OF rec a b] show ?thesis .
  qed
qed

text \<open>No tally of the trajectory is empty when there is a juror.\<close>

lemma deliberation_rounds_not_Nil:
  assumes "deliberation_rounds orc self agents cs opts k rn cv traj ka w = (Inr v, w')"
      and "agents \<noteq> []" and "[] \<notin> set traj"
  shows "[] \<notin> set (vote_trajectory v)"
  using assms
proof (induction k arbitrary: rn cv traj ka w)
  case 0
  then show ?case by (auto simp: Let_def split: if_splits sum.splits)
next
  case (Suc k)
  obtain args w1 where d: "discussion_round orc agents cv cs rn w = (args, w1)"
    by (cases "discussion_round orc agents cv cs rn w")
  obtain rv w2 where r: "revote orc agents args opts w1 = (rv, w2)"
    by (cases "revote orc agents args opts w1")
  from Suc.prems(1) d r obtain nv where nv: "rv = Inr nv"
    by (cases rv) auto
  from r nv Suc.prems(2) have nvne: "nv \<noteq> []"
    using jury_vote_loop_not_Nil unfolding revote_def by blast
  from Suc.prems(1) d r nv obtain b where
    c: "check_consensus self nv (int (length agents)) = Inr b"
    by (cases "check_consensus self nv (int (length agents))") auto
  show ?case
  proof (cases b)
    case True
    with Suc.prems(1) d r nv c obtain best where "max_key nv = Inr best"
      by (cases "max_key nv") auto
    with Suc.prems d r nv c True nvne show ?thesis by (auto simp: Let_def)
  next
    case False
    with Suc.prems(1) d r nv c
    have rec: "deliberation_rounds orc self agents cs opts k (rn + 1) nv (traj @ [nv])
                 (ka @ args) w2 = (Inr v, w')"
      by (simp add: Let_def)
    have "[] \<notin> set (traj @ [nv])" using Suc.prems(3) nvne by auto
    from Suc.IH[OF rec Suc.prems(2) this] show ?thesis .
  qed
qed

lemma run_result_collapse: "\<not> isl (fst x) \<Longrightarrow> x = (Inr (projr (fst x)), snd x)"
  by (cases x, cases "fst x") auto

lemma initial_vote_not_Nil:
  assumes "initial_vote orc agents cs ev ch opts w = (Inr votes, w1)" and "agents \<noteq> []"
  shows "votes \<noteq> []"
  using assms jury_vote_loop_not_Nil unfolding initial_vote_def by blast

text \<open>
  The shape of a run of \<open>execute\<close> that returns a verdict: either the initial tally met
  the check, or the deliberation loop ran from the initial tally.
\<close>

lemma jury_execute_cases:
  assumes "jury_execute orc self agents ctx w = (Inr v, w')"
  obtains (initial) cv best where
      "initial_vote orc agents (jury_case_summary ctx) (jury_evidence ctx) (jury_charges ctx)
         (jury_verdict_options ctx) w = (Inr cv, w')"
      "cv \<noteq> []"
      "check_consensus self cv (int (length agents)) = Inr True"
      "v = \<lparr>verdict = best, final_vote_counts = cv, rounds_taken = 0,
            consensus_reached = True, vote_trajectory = [cv], key_arguments = [],
            holdouts = []\<rparr>"
    | (deliberated) cv w1 where
      "initial_vote orc agents (jury_case_summary ctx) (jury_evidence ctx) (jury_charges ctx)
         (jury_verdict_options ctx) w = (Inr cv, w1)"
      "cv \<noteq> []" "agents \<noteq> []"
      "check_consensus self cv (int (length agents)) = Inr False"
      "deliberation_rounds orc self agents (jury_case_summary ctx) (jury_verdict_options ctx)
         (nat (jury_max_rounds self)) 1 cv [cv] [] w1 = (Inr v, w')"
proof -
  let ?n = "int (length agents)"
  from assms have va: "jury_validate_participation agents"
    by (auto simp: jury_execute_def split: if_splits)
  hence ne: "agents \<noteq> []" by (auto simp: jury_validate_participation_def)
  obtain iv w1 where i: "initial_vote orc agents (jury_case_summary ctx) (jury_evidence ctx)
                           (jury_charges ctx) (jury_verdict_options ctx) w = (iv, w1)"
    by (cases "initial_vote orc agents (jury_case_summary ctx) (jury_evidence ctx)
                           (jury_charges ctx) (jury_verdict_options ctx) w")
  from assms va i obtain cv where cv: "iv = Inr cv"
    by (cases iv) (auto simp: jury_execute_def Let_def)
  from i cv ne have cvne: "cv \<noteq> []" using initial_vote_not_Nil by blast
  from assms va i cv obtain b where c: "check_consensus self cv ?n = Inr b"
    by (cases "check_consensus self cv ?n") (auto simp: jury_execute_def Let_def)
  show ?thesis
  proof (cases b)
    case True
    with assms va i cv c obtain best where "max_key cv = Inr best"
      by (cases "max_key cv") (auto simp: jury_execute_def Let_def)
    with assms va i cv c True cvne show ?thesis
      by (intro initial[of cv best]) (auto simp: jury_execute_def Let_def)
  next
    case False
    with assms va i cv c
    have "deliberation_rounds orc self agents (jury_case_summary ctx)
                 (jury_verdict_options ctx) (nat (jury_max_rounds self)) 1 cv [cv] [] w1
               = (Inr v, w')"
      by (auto simp: jury_execute_def Let_def)
    with i cv cvne ne c False show ?thesis by (intro deliberated[of cv w1]) auto
  qed
qed


text \<open>
  A jury run with a valid panel and a non-empty list of verdict options raises nothing:
  the parser finds the \<^verbatim>\<open>VOTE:\<close> line it looks for, the tallies are not empty, and the
  panel is not empty.
\<close>

lemma split_on_not_Nil: "split_on d s \<noteq> []"
  by (induction s) (auto split: list.splits)

lemma contains_Nil: "contains [] s"
  by (cases s) auto

lemma upper_Cons: "upper (c # cs) = upper_char c # upper cs"
  by (simp add: upper_def)

lemma upper_Nil: "upper [] = []"
  by (simp add: upper_def)

lemma upper_char_newline: "upper_char c = CHR ''\<newline>'' \<Longrightarrow> c = CHR ''\<newline>''"
proof (cases "97 \<le> (of_char c :: nat) \<and> (of_char c :: nat) \<le> 122")
  case False
  assume "upper_char c = CHR ''\<newline>''"
  with False show ?thesis by (auto simp: upper_char_def)
next
  case True
  assume a: "upper_char c = CHR ''\<newline>''"
  from True have u: "upper_char c = char_of ((of_char c :: nat) - 32)"
    by (simp add: upper_char_def)
  have "(of_char (char_of ((of_char c :: nat) - 32) :: char) :: nat) = (of_char c - 32) mod 256"
    by (simp only: of_char_of)
  also have "\<dots> = (of_char c :: nat) - 32"
  proof (rule mod_less)
    show "(of_char c :: nat) - 32 < 256" using True by linarith
  qed
  finally have "(of_char (upper_char c) :: nat) = of_char c - 32" using u by simp
  with a have "(of_char c :: nat) - 32 = 10" by simp
  with True have False by linarith
  thus ?thesis ..
qed

lemma prefix_first_line:
  assumes "take (length sub) (upper s) = sub" and "CHR ''\<newline>'' \<notin> set sub"
  shows "take (length sub) (upper (hd (split_on CHR ''\<newline>'' s))) = sub"
  using assms
proof (induction s arbitrary: sub)
  case Nil
  then show ?case by (simp add: upper_Nil)
next
  case (Cons c cs)
  show ?case
  proof (cases sub)
    case Nil
    then show ?thesis by simp
  next
    case (Cons x sub')
    with Cons.prems have x: "upper_char c = x" and r: "take (length sub') (upper cs) = sub'"
      and nx: "x \<noteq> CHR ''\<newline>''" and ns: "CHR ''\<newline>'' \<notin> set sub'"
      by (auto simp: upper_Cons)
    from x nx have cn: "c \<noteq> CHR ''\<newline>''" by (auto simp: upper_char_def)
    obtain l0 ls where sp: "split_on CHR ''\<newline>'' cs = l0 # ls"
      using split_on_not_Nil[of "CHR ''\<newline>''" cs] by (cases "split_on CHR ''\<newline>'' cs") auto
    from Cons.IH[OF r ns] sp have "take (length sub') (upper l0) = sub'" by simp
    with cn sp x Cons show ?thesis by (simp add: upper_Cons)
  qed
qed

lemma contains_some_line:
  assumes "contains sub (upper s)" and "CHR ''\<newline>'' \<notin> set sub"
  shows "\<exists>l \<in> set (split_on CHR ''\<newline>'' s). contains sub (upper l)"
  using assms
proof (induction s)
  case Nil
  then show ?case by (simp add: upper_Nil)
next
  case (Cons c cs)
  obtain l0 ls where sp: "split_on CHR ''\<newline>'' cs = l0 # ls"
    using split_on_not_Nil[of "CHR ''\<newline>''" cs] by (cases "split_on CHR ''\<newline>'' cs") auto
  from Cons.prems(1) have
    "take (length sub) (upper (c # cs)) = sub \<or> contains sub (upper cs)"
    by (simp add: upper_Cons)
  then show ?case
  proof
    assume p: "take (length sub) (upper (c # cs)) = sub"
    let ?h = "hd (split_on CHR ''\<newline>'' (c # cs))"
    from prefix_first_line[OF p Cons.prems(2)]
    have t: "take (length sub) (upper ?h) = sub" .
    have "contains sub (upper ?h)"
    proof (cases "upper ?h")
      case Nil
      with t have "sub = []" by simp
      then show ?thesis by (simp add: contains_Nil)
    next
      case (Cons y ys)
      with t show ?thesis by simp
    qed
    moreover have "?h \<in> set (split_on CHR ''\<newline>'' (c # cs))"
      using split_on_not_Nil[of "CHR ''\<newline>''" "c # cs"] by (intro hd_in_set)
    ultimately show ?thesis by blast
  next
    assume "contains sub (upper cs)"
    from Cons.IH[OF this Cons.prems(2)] obtain l where
      l: "l \<in> set (split_on CHR ''\<newline>'' cs)" and cl: "contains sub (upper l)" by blast
    show ?thesis
    proof (cases "c = CHR ''\<newline>''")
      case True
      with l cl show ?thesis by auto
    next
      case False
      show ?thesis
      proof (cases "l = l0")
        case True
        with cl have "contains sub (upper (c # l0))" by (simp add: upper_Cons)
        with False sp show ?thesis by auto
      next
        case False
        with l sp have "l \<in> set ls" by simp
        with \<open>c \<noteq> CHR ''\<newline>''\<close> sp cl show ?thesis by auto
      qed
    qed
  qed
qed

lemma parse_jury_vote_returns:
  assumes "opts \<noteq> []"
  shows "\<exists>v. parse_jury_vote response opts = Inr v"
proof -
  obtain first rest where o: "opts = first # rest" using assms by (cases opts) auto
  show ?thesis
  proof (cases "contains ''VOTE:'' (upper response)")
    case False
    with o show ?thesis by (simp add: parse_jury_vote_def Let_def)
  next
    case True
    have "CHR ''\<newline>'' \<notin> set ''VOTE:''" by simp
    from contains_some_line[OF True this]
    have "filter (\<lambda>line. contains ''VOTE:'' (upper line)) (split_on CHR ''\<newline>'' response) \<noteq> []"
      by (simp add: filter_empty_conv)
    then obtain vl vls where
      "filter (\<lambda>line. contains ''VOTE:'' (upper line)) (split_on CHR ''\<newline>'' response) = vl # vls"
      by (cases "filter (\<lambda>line. contains ''VOTE:'' (upper line)) (split_on CHR ''\<newline>'' response)")
         auto
    with True o show ?thesis by (simp add: parse_jury_vote_def Let_def)
  qed
qed

lemma jury_vote_loop_returns:
  assumes "opts \<noteq> []"
  shows "\<exists>r. fst (jury_vote_loop orc prompt label opts ags votes w) = Inr r"
proof (induction ags arbitrary: votes w)
  case Nil
  then show ?case by simp
next
  case (Cons a ags)
  obtain response w1 where t: "think orc a prompt label w = (response, w1)"
    by (cases "think orc a prompt label w")
  from parse_jury_vote_returns[OF assms] obtain v where
    "parse_jury_vote response opts = Inr v" by blast
  with t Cons.IH show ?case by simp
qed

lemma max_key_returns: "d \<noteq> [] \<Longrightarrow> \<exists>k. max_key d = Inr k"
  by (cases d) (auto simp: max_key_def)

lemma check_consensus_returns: "n \<noteq> 0 \<Longrightarrow> \<exists>b. check_consensus self votes n = Inr b"
  by (auto simp: check_consensus_def Let_def)

lemma deliberation_rounds_returns:
  assumes "opts \<noteq> []" and "agents \<noteq> []"
  shows "cv \<noteq> [] \<Longrightarrow>
         \<not> isl (fst (deliberation_rounds orc self agents cs opts k rn cv traj ka w))"
proof (induction k arbitrary: rn cv traj ka w)
  case 0
  from max_key_returns[OF "0.prems"] obtain best where "max_key cv = Inr best" by blast
  then show ?case by simp
next
  case (Suc k)
  obtain args w1 where d: "discussion_round orc agents cv cs rn w = (args, w1)"
    by (cases "discussion_round orc agents cv cs rn w")
  obtain rv w2 where r: "revote orc agents args opts w1 = (rv, w2)"
    by (cases "revote orc agents args opts w1")
  from jury_vote_loop_returns[OF assms(1)] r obtain nv where nv: "rv = Inr nv"
    unfolding revote_def by (metis fst_conv)
  from r nv assms(2) have nvne: "nv \<noteq> []"
    using jury_vote_loop_not_Nil unfolding revote_def by blast
  have "int (length agents) \<noteq> 0" using assms(2) by simp
  from check_consensus_returns[OF this] obtain b where
    c: "check_consensus self nv (int (length agents)) = Inr b" by blast
  from max_key_returns[OF nvne] obtain best where m: "max_key nv = Inr best" by blast
  show ?case
  proof (cases b)
    case True
    with d r nv c m show ?thesis by (simp add: Let_def)
  next
    case False
    with d r nv c Suc.IH[OF nvne] show ?thesis by (simp add: Let_def)
  qed
qed

lemma jury_execute_returns:
  assumes "jury_validate_participation agents" and "jury_verdict_options ctx \<noteq> []"
  shows "\<not> isl (fst (jury_execute orc self agents ctx w))"
proof -
  from assms(1) have ne: "agents \<noteq> []" by (auto simp: jury_validate_participation_def)
  obtain iv w1 where i: "initial_vote orc agents (jury_case_summary ctx) (jury_evidence ctx)
                           (jury_charges ctx) (jury_verdict_options ctx) w = (iv, w1)"
    by (cases "initial_vote orc agents (jury_case_summary ctx) (jury_evidence ctx)
                           (jury_charges ctx) (jury_verdict_options ctx) w")
  from jury_vote_loop_returns[OF assms(2)] i obtain cv where cv: "iv = Inr cv"
    unfolding initial_vote_def by (metis fst_conv)
  from i cv ne have cvne: "cv \<noteq> []" using initial_vote_not_Nil by blast
  have "int (length agents) \<noteq> 0" using ne by simp
  from check_consensus_returns[OF this] obtain b where
    c: "check_consensus self cv (int (length agents)) = Inr b" by blast
  from max_key_returns[OF cvne] obtain best where m: "max_key cv = Inr best" by blast
  show ?thesis
  proof (cases b)
    case True
    with assms(1) i cv c m show ?thesis by (simp add: jury_execute_def Let_def)
  next
    case False
    with assms(1) i cv c deliberation_rounds_returns[OF assms(2) ne cvne]
    show ?thesis by (simp add: jury_execute_def Let_def)
  qed
qed


text \<open>One step of \<open>execute\<close> and one step of the deliberation loop, by the outcome of the check.\<close>

lemma fst_collapse: "fst x = a \<Longrightarrow> x = (a, snd x)"
  by (cases x) simp

lemma jury_execute_step:
  assumes "jury_validate_participation agents"
      and "initial_vote orc agents (jury_case_summary ctx) (jury_evidence ctx) (jury_charges ctx)
             (jury_verdict_options ctx) w = (Inr cv, w1)"
      and "check_consensus self cv (int (length agents)) = Inr b"
      and "cv \<noteq> []"
  shows "jury_execute orc self agents ctx w =
           (if b
            then (Inr \<lparr>verdict = projr (max_key cv), final_vote_counts = cv, rounds_taken = 0,
                       consensus_reached = True, vote_trajectory = [cv], key_arguments = [],
                       holdouts = []\<rparr>, w1)
            else deliberation_rounds orc self agents (jury_case_summary ctx)
                   (jury_verdict_options ctx) (nat (jury_max_rounds self)) 1 cv [cv] [] w1)"
proof -
  from max_key_returns[OF assms(4)] obtain best where m: "max_key cv = Inr best" by blast
  show ?thesis
  proof (cases b)
    case True
    with assms(1,2,3) m show ?thesis by (simp add: jury_execute_def Let_def)
  next
    case False
    with assms(1,2,3) show ?thesis by (simp add: jury_execute_def Let_def)
  qed
qed

lemma deliberation_step:
  assumes "discussion_round orc agents cv cs rn w = (args, w1)"
      and "revote orc agents args opts w1 = (Inr nv, w2)"
      and "check_consensus self nv (int (length agents)) = Inr b"
      and "nv \<noteq> []"
  shows "deliberation_rounds orc self agents cs opts (Suc k) rn cv traj ka w =
           (if b
            then (Inr \<lparr>verdict = projr (max_key nv), final_vote_counts = nv, rounds_taken = rn,
                       consensus_reached = True, vote_trajectory = traj @ [nv],
                       key_arguments = take 5 (ka @ args), holdouts = []\<rparr>, w2)
            else deliberation_rounds orc self agents cs opts k (rn + 1) nv (traj @ [nv])
                   (ka @ args) w2)"
proof -
  from max_key_returns[OF assms(4)] obtain best where m: "max_key nv = Inr best" by blast
  show ?thesis
  proof (cases b)
    case True
    with assms(1,2,3) m show ?thesis by (simp add: Let_def find_holdouts_def)
  next
    case False
    with assms(1,2,3) show ?thesis by (simp add: Let_def)
  qed
qed

text \<open>The trajectory lists the tallies of the rounds, in order.\<close>

lemma deliberation_rounds_tallies:
  fixes w :: "'r run"
  assumes "deliberation_rounds orc self agents cs opts k rn cv traj ka w1 = (Inr v, w')"
      and "traj \<noteq> []" and "rn = int (length traj)"
      and "tally_after_round orc agents cs ev ch opts w (length traj - 1) = (Inr cv, w1)"
      and "\<forall>i < length traj. fst (tally_after_round orc agents cs ev ch opts w i) = Inr (traj ! i)"
  shows "\<forall>i < length (vote_trajectory v).
           fst (tally_after_round orc agents cs ev ch opts w i) = Inr (vote_trajectory v ! i)"
  using assms
proof (induction k arbitrary: rn cv traj ka w1)
  case 0
  then show ?case by (auto simp: Let_def split: if_splits sum.splits)
next
  case (Suc k)
  obtain args wa where d: "discussion_round orc agents cv cs rn w1 = (args, wa)"
    by (cases "discussion_round orc agents cv cs rn w1")
  obtain rv w2 where r: "revote orc agents args opts wa = (rv, w2)"
    by (cases "revote orc agents args opts wa")
  from Suc.prems(1) d r obtain nv where nv: "rv = Inr nv"
    by (cases rv) auto
  from Suc.prems(1) d r nv obtain b where
    c: "check_consensus self nv (int (length agents)) = Inr b"
    by (cases "check_consensus self nv (int (length agents))") auto
  obtain n where n: "length traj = Suc n" using Suc.prems(2) by (cases traj) auto
  from Suc.prems(4) n have tn: "tally_after_round orc agents cs ev ch opts w n = (Inr cv, w1)"
    by simp
  from Suc.prems(3) n have rn': "int (Suc n) = rn" by simp
  have "tally_after_round orc agents cs ev ch opts w (Suc n) = (Inr nv, w2)"
    using tn d r nv rn' by (simp del: of_nat_Suc)
  hence t: "tally_after_round orc agents cs ev ch opts w (length traj) = (Inr nv, w2)"
    by (simp only: n)
  have ext: "\<forall>i < length (traj @ [nv]).
               fst (tally_after_round orc agents cs ev ch opts w i) = Inr ((traj @ [nv]) ! i)"
  proof (intro allI impI)
    fix i assume "i < length (traj @ [nv])"
    hence "i < length traj \<or> i = length traj" by auto
    thus "fst (tally_after_round orc agents cs ev ch opts w i) = Inr ((traj @ [nv]) ! i)"
    proof
      assume "i < length traj"
      with Suc.prems(5) show ?thesis by (simp add: nth_append)
    next
      assume "i = length traj"
      with t show ?thesis by simp
    qed
  qed
  show ?case
  proof (cases b)
    case True
    with Suc.prems(1) d r nv c obtain best where "max_key nv = Inr best"
      by (cases "max_key nv") auto
    with Suc.prems(1) d r nv c True have "vote_trajectory v = traj @ [nv]"
      by (auto simp: Let_def)
    with ext show ?thesis by simp
  next
    case False
    with Suc.prems(1) d r nv c
    have rec: "deliberation_rounds orc self agents cs opts k (rn + 1) nv (traj @ [nv])
                 (ka @ args) w2 = (Inr v, w')"
      by (simp add: Let_def)
    have a: "traj @ [nv] \<noteq> []" by simp
    have b: "rn + 1 = int (length (traj @ [nv]))" using Suc.prems(3) by simp
    have c': "tally_after_round orc agents cs ev ch opts w (length (traj @ [nv]) - 1) = (Inr nv, w2)"
      using t by simp
    from Suc.IH[OF rec a b c' ext] show ?thesis .
  qed
qed

lemma jury_execute_tallies:
  fixes w :: "'r run"
  assumes "jury_execute orc self agents ctx w = (Inr v, w')"
  shows "\<forall>i < length (vote_trajectory v).
           fst (tally_after_round orc agents (jury_case_summary ctx) (jury_evidence ctx)
                  (jury_charges ctx) (jury_verdict_options ctx) w i)
             = Inr (vote_trajectory v ! i)"
  using assms
proof (cases rule: jury_execute_cases)
  case (initial cv best)
  then show ?thesis by simp
next
  case (deliberated cv w1)
  have a: "[cv] \<noteq> []" by simp
  have b: "(1 :: int) = int (length [cv])" by simp
  have c: "tally_after_round orc agents (jury_case_summary ctx) (jury_evidence ctx)
             (jury_charges ctx) (jury_verdict_options ctx) w (length [cv] - 1) = (Inr cv, w1)"
    using deliberated(1) by simp
  have d: "\<forall>i < length [cv]. fst (tally_after_round orc agents (jury_case_summary ctx)
             (jury_evidence ctx) (jury_charges ctx) (jury_verdict_options ctx) w i)
             = Inr ([cv] ! i)"
    using deliberated(1) by simp
  from deliberation_rounds_tallies[OF deliberated(5) a b c d] show ?thesis .
qed

text \<open>The two answers of the worked juries, as the parser reads them.\<close>

lemma parse_guilty: "parse_jury_vote ''VOTE: Guilty'' [''Guilty'', ''Not Guilty''] = Inr ''Guilty''"
  by code_simp

lemma parse_not_guilty:
  "parse_jury_vote ''VOTE: Not Guilty'' [''Guilty'', ''Not Guilty''] = Inr ''Not Guilty''"
  by code_simp


text \<open>
  C4. For a jury of 12 with \<open>required_consensus = 0.75\<close>: the consensus check on a tally
  is \<open>max(counts) / 12 \<ge> 0.75\<close>, with nothing rounded, so it holds exactly when the
  largest count is at least 9: a tally with 9 votes for one verdict meets it and a tally
  whose largest count is 8 does not. When the initial ballot returns a tally that meets
  the check, \<open>execute\<close> returns at once with \<open>consensus_reached = true\<close>, 0 rounds and that
  tally; otherwise it enters the deliberation loop with that tally. When the re-vote of
  a round returns a tally that meets the check, the loop returns with
  \<open>consensus_reached = true\<close>, that round's number and that tally appended to the
  trajectory; otherwise it appends the tally and goes on to the next round. So in every
  run that returns a verdict, \<open>consensus_reached\<close> is true exactly when the final tally
  has a count of 9 or more, and every earlier entry of the trajectory has largest count
  at most 8.
\<close>

theorem jury_consensus_threshold:
  assumes "required_consensus self = 3 / 4" and "length agents = 12"
  shows "(votes \<noteq> [] \<longrightarrow>
            check_consensus self votes (int (length agents)) =
              Inr (real_of_int (Max (set (map snd votes))) / real (length agents)
                     \<ge> required_consensus self) \<and>
            check_consensus self votes (int (length agents)) =
              Inr (9 \<le> Max (set (map snd votes)))) \<and>
         (initial_vote orc agents (jury_case_summary ctx) (jury_evidence ctx) (jury_charges ctx)
            (jury_verdict_options ctx) w = (Inr cv, w1) \<longrightarrow>
            jury_execute orc self agents ctx w =
              (if 9 \<le> Max (set (map snd cv))
               then (Inr \<lparr>verdict = projr (max_key cv), final_vote_counts = cv,
                          rounds_taken = 0, consensus_reached = True, vote_trajectory = [cv],
                          key_arguments = [], holdouts = []\<rparr>, w1)
               else deliberation_rounds orc self agents (jury_case_summary ctx)
                      (jury_verdict_options ctx) (nat (jury_max_rounds self)) 1 cv [cv] []
                      w1)) \<and>
         (discussion_round orc agents tally cs rn wa = (args, wb) \<longrightarrow>
          revote orc agents args opts wb = (Inr nv, wc) \<longrightarrow>
            deliberation_rounds orc self agents cs opts (Suc k) rn tally traj ka wa =
              (if 9 \<le> Max (set (map snd nv))
               then (Inr \<lparr>verdict = projr (max_key nv), final_vote_counts = nv,
                          rounds_taken = rn, consensus_reached = True,
                          vote_trajectory = traj @ [nv], key_arguments = take 5 (ka @ args),
                          holdouts = []\<rparr>, wc)
               else deliberation_rounds orc self agents cs opts k (rn + 1) nv (traj @ [nv])
                      (ka @ args) wc)) \<and>
         (jury_execute orc self agents ctx w = (Inr v, w') \<longrightarrow>
            consensus_reached v = (9 \<le> Max (set (map snd (final_vote_counts v)))) \<and>
            last (vote_trajectory v) = final_vote_counts v \<and>
            (\<forall>t \<in> set (butlast (vote_trajectory v)). Max (set (map snd t)) \<le> 8))"
proof -
  have n: "int (length agents) = 12" using assms(2) by simp
  have ne: "agents \<noteq> []" using assms(2) by auto
  have va: "jury_validate_participation agents"
    using assms(2) by (simp add: jury_validate_participation_def)
  have chk: "\<And>t. t \<noteq> [] \<Longrightarrow>
               check_consensus self t (int (length agents)) = Inr (9 \<le> Max (set (map snd t)))"
    using check_consensus_twelve[OF assms(1)] n by simp
  have p1: "votes \<noteq> [] \<longrightarrow>
            check_consensus self votes (int (length agents)) =
              Inr (real_of_int (Max (set (map snd votes))) / real (length agents)
                     \<ge> required_consensus self) \<and>
            check_consensus self votes (int (length agents)) =
              Inr (9 \<le> Max (set (map snd votes)))"
  proof
    assume v: "votes \<noteq> []"
    have "int (length agents) \<noteq> 0" using ne by simp
    from check_consensus_formula[OF v this] chk[OF v]
    show "check_consensus self votes (int (length agents)) =
              Inr (real_of_int (Max (set (map snd votes))) / real (length agents)
                     \<ge> required_consensus self) \<and>
            check_consensus self votes (int (length agents)) =
              Inr (9 \<le> Max (set (map snd votes)))"
      by simp
  qed
  have p2: "initial_vote orc agents (jury_case_summary ctx) (jury_evidence ctx) (jury_charges ctx)
            (jury_verdict_options ctx) w = (Inr cv, w1) \<longrightarrow>
            jury_execute orc self agents ctx w =
              (if 9 \<le> Max (set (map snd cv))
               then (Inr \<lparr>verdict = projr (max_key cv), final_vote_counts = cv,
                          rounds_taken = 0, consensus_reached = True, vote_trajectory = [cv],
                          key_arguments = [], holdouts = []\<rparr>, w1)
               else deliberation_rounds orc self agents (jury_case_summary ctx)
                      (jury_verdict_options ctx) (nat (jury_max_rounds self)) 1 cv [cv] []
                      w1)"
  proof
    assume iv: "initial_vote orc agents (jury_case_summary ctx) (jury_evidence ctx)
                  (jury_charges ctx) (jury_verdict_options ctx) w = (Inr cv, w1)"
    from initial_vote_not_Nil[OF iv ne] have cvne: "cv \<noteq> []" .
    from jury_execute_step[OF va iv chk[OF cvne] cvne]
    show "jury_execute orc self agents ctx w =
              (if 9 \<le> Max (set (map snd cv))
               then (Inr \<lparr>verdict = projr (max_key cv), final_vote_counts = cv,
                          rounds_taken = 0, consensus_reached = True, vote_trajectory = [cv],
                          key_arguments = [], holdouts = []\<rparr>, w1)
               else deliberation_rounds orc self agents (jury_case_summary ctx)
                      (jury_verdict_options ctx) (nat (jury_max_rounds self)) 1 cv [cv] []
                      w1)" .
  qed
  have p3: "discussion_round orc agents tally cs rn wa = (args, wb) \<longrightarrow>
          revote orc agents args opts wb = (Inr nv, wc) \<longrightarrow>
            deliberation_rounds orc self agents cs opts (Suc k) rn tally traj ka wa =
              (if 9 \<le> Max (set (map snd nv))
               then (Inr \<lparr>verdict = projr (max_key nv), final_vote_counts = nv,
                          rounds_taken = rn, consensus_reached = True,
                          vote_trajectory = traj @ [nv], key_arguments = take 5 (ka @ args),
                          holdouts = []\<rparr>, wc)
               else deliberation_rounds orc self agents cs opts k (rn + 1) nv (traj @ [nv])
                      (ka @ args) wc)"
  proof (intro impI)
    assume d: "discussion_round orc agents tally cs rn wa = (args, wb)"
       and r: "revote orc agents args opts wb = (Inr nv, wc)"
    from r ne have nvne: "nv \<noteq> []"
      using jury_vote_loop_not_Nil unfolding revote_def by blast
    from deliberation_step[OF d r chk[OF nvne] nvne]
    show "deliberation_rounds orc self agents cs opts (Suc k) rn tally traj ka wa =
              (if 9 \<le> Max (set (map snd nv))
               then (Inr \<lparr>verdict = projr (max_key nv), final_vote_counts = nv,
                          rounds_taken = rn, consensus_reached = True,
                          vote_trajectory = traj @ [nv], key_arguments = take 5 (ka @ args),
                          holdouts = []\<rparr>, wc)
               else deliberation_rounds orc self agents cs opts k (rn + 1) nv (traj @ [nv])
                      (ka @ args) wc)" .
  qed
  have p4: "jury_execute orc self agents ctx w = (Inr v, w') \<longrightarrow>
            consensus_reached v = (9 \<le> Max (set (map snd (final_vote_counts v)))) \<and>
            last (vote_trajectory v) = final_vote_counts v \<and>
            (\<forall>t \<in> set (butlast (vote_trajectory v)). Max (set (map snd t)) \<le> 8)"
  proof
    assume run: "jury_execute orc self agents ctx w = (Inr v, w')"
    from run show "consensus_reached v = (9 \<le> Max (set (map snd (final_vote_counts v)))) \<and>
            last (vote_trajectory v) = final_vote_counts v \<and>
            (\<forall>t \<in> set (butlast (vote_trajectory v)). Max (set (map snd t)) \<le> 8)"
    proof (cases rule: jury_execute_cases)
      case (initial cv best)
      then show ?thesis using chk[of cv] by simp
    next
      case (deliberated cv w1)
      have a: "[cv] \<noteq> []" "last [cv] = cv" by simp_all
      have b: "\<forall>t \<in> set [cv]. check_consensus self t (int (length agents)) = Inr False"
        using deliberated(4) by simp
      have c: "[] \<notin> set [cv]" using deliberated(2) by simp
      note len = deliberation_rounds_length[OF deliberated(5) a]
      note ck = deliberation_rounds_check[OF deliberated(5) a b]
      note nn = deliberation_rounds_not_Nil[OF deliberated(5) deliberated(3) c]
      from len have lst: "last (vote_trajectory v) = final_vote_counts v"
        and tne: "vote_trajectory v \<noteq> []" by simp_all
      hence "final_vote_counts v \<in> set (vote_trajectory v)" using last_in_set by metis
      with nn have fne: "final_vote_counts v \<noteq> []" by metis
      have cr: "consensus_reached v = (9 \<le> Max (set (map snd (final_vote_counts v))))"
        using ck chk[OF fne] by simp
      have "\<forall>t \<in> set (butlast (vote_trajectory v)). Max (set (map snd t)) \<le> 8"
      proof
        fix t assume t: "t \<in> set (butlast (vote_trajectory v))"
        hence "t \<in> set (vote_trajectory v)" by (rule in_set_butlastD)
        with nn have "t \<noteq> []" by metis
        from chk[OF this] ck t have "\<not> 9 \<le> Max (set (map snd t))" by simp
        thus "Max (set (map snd t)) \<le> 8" by simp
      qed
      with cr lst show ?thesis by simp
    qed
  qed
  from p1 p2 p3 p4 show ?thesis by (intro conjI)
qed

theorem jury_consensus_threshold_witness:
  "check_consensus (example_jury 3 True) [(''Guilty'', 9), (''Not Guilty'', 3)] 12 = Inr True \<and>
   check_consensus (example_jury 3 True) [(''Guilty'', 8), (''Not Guilty'', 4)] 12 = Inr False \<and>
   fst (jury_execute (swayed_answers (take 8 twelve_names) (take 9 twelve_names))
          (example_jury 3 True) (panel twelve_names) empty_case (fresh_run :: JuryVerdict run))
     = Inr \<lparr>verdict = ''Guilty'',
            final_vote_counts = [(''Guilty'', 9), (''Not Guilty'', 3)],
            rounds_taken = 1, consensus_reached = True,
            vote_trajectory = [[(''Guilty'', 8), (''Not Guilty'', 4)],
                               [(''Guilty'', 9), (''Not Guilty'', 3)]],
            key_arguments = [''j01: VOTE: Guilty'', ''j02: VOTE: Guilty'',
                             ''j03: VOTE: Guilty'', ''j04: VOTE: Guilty'',
                             ''j05: VOTE: Guilty''],
            holdouts = []\<rparr>"
proof -
  let ?self = "example_jury 3 True"
  let ?O = "swayed_answers (take 8 twelve_names) (take 9 twelve_names)"
  let ?ags = "panel twelve_names"
  let ?w0 = "fresh_run :: JuryVerdict run"
  let ?T8 = "[(''Guilty'', 8), (''Not Guilty'', 4 :: int)]"
  let ?T9 = "[(''Guilty'', 9), (''Not Guilty'', 3 :: int)]"
  let ?opts = "[''Guilty'', ''Not Guilty'']"
  let ?args = "map (\<lambda>n. n @ '': '' @ (if n \<in> set (take 8 twelve_names) then ''VOTE: Guilty''
                                       else ''VOTE: Not Guilty'')) twelve_names"
  have rc: "required_consensus ?self = 3 / 4" by (simp add: example_jury_def)
  have len: "length ?ags = 12" by (simp add: panel_def twelve_names_def six_names_def)
  have cx: "jury_case_summary empty_case = []" "jury_evidence empty_case = []"
           "jury_charges empty_case = []" "jury_verdict_options empty_case = ?opts"
    by (simp_all add: jury_case_summary_def jury_evidence_def jury_charges_def
        jury_verdict_options_def empty_case_def)
  have mr: "nat (jury_max_rounds ?self) = Suc 2" by (simp add: example_jury_def)
  note T = jury_consensus_threshold[OF rc len]
  \<comment> \<open>the check on the two tallies\<close>
  from T[where votes = ?T9] have "check_consensus ?self ?T9 (int (length ?ags))
                  = Inr (9 \<le> Max (set (map snd ?T9)))" by blast
  hence c9: "check_consensus ?self ?T9 12 = Inr True" by (simp add: len)
  from T[where votes = ?T8] have "check_consensus ?self ?T8 (int (length ?ags))
                  = Inr (9 \<le> Max (set (map snd ?T8)))" by blast
  hence c8: "check_consensus ?self ?T8 12 = Inr False" by (simp add: len)
  \<comment> \<open>the initial ballot: 8 to 4\<close>
  let ?iv = "initial_vote ?O ?ags (jury_case_summary empty_case) (jury_evidence empty_case)
               (jury_charges empty_case) (jury_verdict_options empty_case) ?w0"
  have "fst ?iv = Inr ?T8"
    by (simp add: cx initial_vote_def panel_def twelve_names_def six_names_def example_agent_def
        think_def swayed_answers_def log_response_def parse_guilty parse_not_guilty Let_def)
  hence iv: "?iv = (Inr ?T8, snd ?iv)" by (rule fst_collapse)
  from T[where orc = ?O and ctx = empty_case and w = ?w0 and cv = ?T8 and ?w1.0 = "snd ?iv"] iv
  have "jury_execute ?O ?self ?ags empty_case ?w0 =
          (if 9 \<le> Max (set (map snd ?T8))
           then (Inr \<lparr>verdict = projr (max_key ?T8), final_vote_counts = ?T8,
                      rounds_taken = 0, consensus_reached = True, vote_trajectory = [?T8],
                      key_arguments = [], holdouts = []\<rparr>, snd ?iv)
           else deliberation_rounds ?O ?self ?ags (jury_case_summary empty_case)
                  (jury_verdict_options empty_case) (nat (jury_max_rounds ?self)) 1 ?T8 [?T8] []
                  (snd ?iv))"
    by blast
  hence e1: "jury_execute ?O ?self ?ags empty_case ?w0 =
               deliberation_rounds ?O ?self ?ags [] ?opts (Suc 2) 1 ?T8 [?T8] [] (snd ?iv)"
    by (simp add: cx mr)
  \<comment> \<open>round 1: the arguments, then the re-vote: 9 to 3\<close>
  let ?dr = "discussion_round ?O ?ags ?T8 [] 1 (snd ?iv)"
  have "fst ?dr = ?args"
    by (simp add: discussion_round_def panel_def twelve_names_def six_names_def example_agent_def
        think_def swayed_answers_def log_message_def Let_def)
  hence dr: "?dr = (?args, snd ?dr)" by (rule fst_collapse)
  let ?rv = "revote ?O ?ags ?args ?opts (snd ?dr)"
  have "fst ?rv = Inr ?T9"
    by (simp add: revote_def panel_def twelve_names_def six_names_def example_agent_def
        think_def swayed_answers_def log_response_def parse_guilty parse_not_guilty Let_def)
  hence rv: "?rv = (Inr ?T9, snd ?rv)" by (rule fst_collapse)
  from T[where orc = ?O and tally = ?T8 and cs = "[]" and rn = 1 and wa = "snd ?iv"
           and args = ?args and wb = "snd ?dr" and opts = ?opts and nv = ?T9
           and wc = "snd ?rv" and k = 2 and traj = "[?T8]" and ka = "[]"] dr rv
  have "deliberation_rounds ?O ?self ?ags [] ?opts (Suc 2) 1 ?T8 [?T8] [] (snd ?iv) =
          (if 9 \<le> Max (set (map snd ?T9))
           then (Inr \<lparr>verdict = projr (max_key ?T9), final_vote_counts = ?T9,
                      rounds_taken = 1, consensus_reached = True,
                      vote_trajectory = [?T8] @ [?T9], key_arguments = take 5 ([] @ ?args),
                      holdouts = []\<rparr>, snd ?rv)
           else deliberation_rounds ?O ?self ?ags [] ?opts 2 (1 + 1) ?T9 ([?T8] @ [?T9])
                  ([] @ ?args) (snd ?rv))"
    by blast
  hence e2: "fst (deliberation_rounds ?O ?self ?ags [] ?opts (Suc 2) 1 ?T8 [?T8] [] (snd ?iv)) =
               Inr \<lparr>verdict = ''Guilty'', final_vote_counts = ?T9,
                      rounds_taken = 1, consensus_reached = True,
                      vote_trajectory = [?T8, ?T9],
                      key_arguments = [''j01: VOTE: Guilty'', ''j02: VOTE: Guilty'',
                             ''j03: VOTE: Guilty'', ''j04: VOTE: Guilty'',
                             ''j05: VOTE: Guilty''],
                      holdouts = []\<rparr>"
    by (simp add: max_key_def twelve_names_def six_names_def)
  from c9 c8 e1 e2 show ?thesis by simp
qed


text \<open>
  C5 as stated fails: the hung-jury and forced-plurality exits report
  \<open>rounds_taken = self.max_rounds\<close>, and nothing keeps \<open>max_rounds\<close> from being negative.
  With \<open>max_rounds = -1\<close> and a panel of six that splits 3 to 3, the loop
  \<^verbatim>\<open>range(1, 0)\<close> is empty and the verdict is a hung jury with \<open>rounds_taken = -1\<close> and a
  trajectory of one entry: its length 1 is not \<open>rounds_taken + 1 = 0\<close>.
\<close>

theorem jury_trajectory_length_counterexample:
  "fst (jury_execute (swayed_answers (take 3 six_names) (take 3 six_names))
          (example_jury (- 1) True) (panel six_names) empty_case (fresh_run :: JuryVerdict run))
     = Inr \<lparr>verdict = ''Hung Jury'',
            final_vote_counts = [(''Guilty'', 3), (''Not Guilty'', 3)],
            rounds_taken = - 1, consensus_reached = False,
            vote_trajectory = [[(''Guilty'', 3), (''Not Guilty'', 3)]],
            key_arguments = [], holdouts = []\<rparr> \<and>
   int (length [[(''Guilty'', 3), (''Not Guilty'', 3 :: int)]]) \<noteq> - 1 + 1"
proof -
  let ?self = "example_jury (- 1) True"
  let ?O = "swayed_answers (take 3 six_names) (take 3 six_names)"
  let ?ags = "panel six_names"
  let ?w0 = "fresh_run :: JuryVerdict run"
  let ?T = "[(''Guilty'', 3), (''Not Guilty'', 3 :: int)]"
  let ?opts = "[''Guilty'', ''Not Guilty'']"
  have len: "length ?ags = 6" by (simp add: panel_def six_names_def)
  have va: "jury_validate_participation ?ags"
    by (simp add: jury_validate_participation_def len)
  have cx: "jury_case_summary empty_case = []" "jury_evidence empty_case = []"
           "jury_charges empty_case = []" "jury_verdict_options empty_case = ?opts"
    by (simp_all add: jury_case_summary_def jury_evidence_def jury_charges_def
        jury_verdict_options_def empty_case_def)
  let ?iv = "initial_vote ?O ?ags (jury_case_summary empty_case) (jury_evidence empty_case)
               (jury_charges empty_case) (jury_verdict_options empty_case) ?w0"
  have "fst ?iv = Inr ?T"
    by (simp add: cx initial_vote_def panel_def six_names_def example_agent_def
        think_def swayed_answers_def log_response_def parse_guilty parse_not_guilty Let_def)
  hence iv: "?iv = (Inr ?T, snd ?iv)" by (rule fst_collapse)
  have ck: "check_consensus ?self ?T (int (length ?ags)) = Inr False"
    by (simp add: check_consensus_def example_jury_def len)
  have ne: "?T \<noteq> []" by simp
  from jury_execute_step[OF va iv ck ne]
  have "jury_execute ?O ?self ?ags empty_case ?w0 =
          deliberation_rounds ?O ?self ?ags [] ?opts (nat (jury_max_rounds ?self)) 1 ?T [?T] []
            (snd ?iv)"
    by (simp add: cx)
  moreover have "nat (jury_max_rounds ?self) = 0" by (simp add: example_jury_def)
  ultimately have "fst (jury_execute ?O ?self ?ags empty_case ?w0) =
          Inr \<lparr>verdict = ''Hung Jury'', final_vote_counts = ?T,
            rounds_taken = - 1, consensus_reached = False, vote_trajectory = [?T],
            key_arguments = [], holdouts = []\<rparr>"
    by (simp add: example_jury_def find_holdouts_def)
  thus ?thesis by simp
qed

text \<open>
  C5 (as amended). When \<open>max_rounds\<close> is not negative, every jury run that returns a
  verdict, whether consensus was reached at round 0 or at a later round, or the jury is
  hung, or the plurality verdict is forced, has \<open>len(vote_trajectory) = rounds_taken + 1\<close>.
  Entry 0 of the trajectory is the tally of the initial secret ballot, and entry \<open>i\<close> is
  the tally after round \<open>i\<close>: the tally the re-vote of round \<open>i\<close> returned, on the arguments
  exchanged in round \<open>i\<close> about the tally of round \<open>i - 1\<close>. The last entry is the final
  tally.
\<close>

theorem jury_trajectory_length:
  fixes w :: "'r run"
  assumes "0 \<le> jury_max_rounds self"
      and "jury_execute orc self agents ctx w = (Inr v, w')"
  shows "int (length (vote_trajectory v)) = rounds_taken v + 1 \<and>
         fst (initial_vote orc agents (jury_case_summary ctx) (jury_evidence ctx)
                (jury_charges ctx) (jury_verdict_options ctx) w)
           = Inr (vote_trajectory v ! 0) \<and>
         (\<forall>i < length (vote_trajectory v).
            fst (tally_after_round orc agents (jury_case_summary ctx) (jury_evidence ctx)
                   (jury_charges ctx) (jury_verdict_options ctx) w i)
              = Inr (vote_trajectory v ! i)) \<and>
         last (vote_trajectory v) = final_vote_counts v"
proof -
  note tl = jury_execute_tallies[OF assms(2)]
  from assms(2)
  have "int (length (vote_trajectory v)) = rounds_taken v + 1 \<and>
        fst (initial_vote orc agents (jury_case_summary ctx) (jury_evidence ctx)
                (jury_charges ctx) (jury_verdict_options ctx) w)
           = Inr (vote_trajectory v ! 0) \<and>
        last (vote_trajectory v) = final_vote_counts v"
  proof (cases rule: jury_execute_cases)
    case (initial cv best)
    then show ?thesis by simp
  next
    case (deliberated cv w1)
    have a: "[cv] \<noteq> []" "last [cv] = cv" by simp_all
    note len = deliberation_rounds_length[OF deliberated(5) a]
    from len have h: "hd (vote_trajectory v) = cv" and ne: "vote_trajectory v \<noteq> []"
      and l: "last (vote_trajectory v) = final_vote_counts v" by simp_all
    from h ne have z: "vote_trajectory v ! 0 = cv" by (simp add: hd_conv_nth)
    from len assms(1) have n: "int (length (vote_trajectory v)) = rounds_taken v + 1"
      by auto
    from n z l deliberated(1) show ?thesis by simp
  qed
  with tl show ?thesis by blast
qed

theorem jury_trajectory_length_witness:
  "0 \<le> jury_max_rounds (example_jury 2 True) \<and>
   fst (jury_execute (swayed_answers (take 3 six_names) (take 4 six_names))
          (example_jury 2 True) (panel six_names) empty_case (fresh_run :: JuryVerdict run))
     = Inr \<lparr>verdict = ''Hung Jury'',
            final_vote_counts = [(''Guilty'', 4), (''Not Guilty'', 2)],
            rounds_taken = 2, consensus_reached = False,
            vote_trajectory = [[(''Guilty'', 3), (''Not Guilty'', 3)],
                               [(''Guilty'', 4), (''Not Guilty'', 2)],
                               [(''Guilty'', 4), (''Not Guilty'', 2)]],
            key_arguments = [''j01: VOTE: Guilty'', ''j02: VOTE: Guilty'',
                             ''j03: VOTE: Guilty'', ''j04: VOTE: Not Guilty'',
                             ''j05: VOTE: Not Guilty''],
            holdouts = []\<rparr> \<and>
   int (length [[(''Guilty'', 3), (''Not Guilty'', 3 :: int)],
                [(''Guilty'', 4), (''Not Guilty'', 2)],
                [(''Guilty'', 4), (''Not Guilty'', 2)]]) = 2 + 1 \<and>
   fst (tally_after_round (swayed_answers (take 3 six_names) (take 4 six_names))
          (panel six_names) [] [] [] [''Guilty'', ''Not Guilty'']
          (fresh_run :: JuryVerdict run) 0) = Inr [(''Guilty'', 3), (''Not Guilty'', 3)] \<and>
   fst (tally_after_round (swayed_answers (take 3 six_names) (take 4 six_names))
          (panel six_names) [] [] [] [''Guilty'', ''Not Guilty'']
          (fresh_run :: JuryVerdict run) 1) = Inr [(''Guilty'', 4), (''Not Guilty'', 2)] \<and>
   fst (tally_after_round (swayed_answers (take 3 six_names) (take 4 six_names))
          (panel six_names) [] [] [] [''Guilty'', ''Not Guilty'']
          (fresh_run :: JuryVerdict run) 2) = Inr [(''Guilty'', 4), (''Not Guilty'', 2)]"
proof -
  let ?self = "example_jury 2 True"
  let ?O = "swayed_answers (take 3 six_names) (take 4 six_names)"
  let ?ags = "panel six_names"
  let ?w0 = "fresh_run :: JuryVerdict run"
  let ?T3 = "[(''Guilty'', 3), (''Not Guilty'', 3 :: int)]"
  let ?T4 = "[(''Guilty'', 4), (''Not Guilty'', 2 :: int)]"
  let ?opts = "[''Guilty'', ''Not Guilty'']"
  let ?args = "map (\<lambda>n. n @ '': '' @ (if n \<in> set (take 3 six_names) then ''VOTE: Guilty''
                                       else ''VOTE: Not Guilty'')) six_names"
  let ?V = "\<lparr>verdict = ''Hung Jury'', final_vote_counts = ?T4, rounds_taken = 2,
             consensus_reached = False, vote_trajectory = [?T3, ?T4, ?T4],
             key_arguments = take 5 (?args @ ?args), holdouts = []\<rparr>"
  have m: "0 \<le> jury_max_rounds ?self" by (simp add: example_jury_def)
  have mr: "nat (jury_max_rounds ?self) = Suc (Suc 0)" by (simp add: example_jury_def)
  have len: "length ?ags = 6" by (simp add: panel_def six_names_def)
  have va: "jury_validate_participation ?ags"
    by (simp add: jury_validate_participation_def len)
  have cx: "jury_case_summary empty_case = []" "jury_evidence empty_case = []"
           "jury_charges empty_case = []" "jury_verdict_options empty_case = ?opts"
    by (simp_all add: jury_case_summary_def jury_evidence_def jury_charges_def
        jury_verdict_options_def empty_case_def)
  \<comment> \<open>the three phases, whatever the run they start from\<close>
  have ivf: "\<And>w :: JuryVerdict run. fst (initial_vote ?O ?ags [] [] [] ?opts w) = Inr ?T3"
    by (simp add: initial_vote_def panel_def six_names_def example_agent_def
        think_def swayed_answers_def log_response_def parse_guilty parse_not_guilty Let_def)
  have drf: "\<And>cv rn (w :: JuryVerdict run). fst (discussion_round ?O ?ags cv [] rn w) = ?args"
    by (simp add: discussion_round_def panel_def six_names_def example_agent_def
        think_def swayed_answers_def log_message_def Let_def)
  have rvf: "\<And>args (w :: JuryVerdict run). fst (revote ?O ?ags args ?opts w) = Inr ?T4"
    by (simp add: revote_def panel_def six_names_def example_agent_def
        think_def swayed_answers_def log_response_def parse_guilty parse_not_guilty Let_def)
  have ck3: "check_consensus ?self ?T3 (int (length ?ags)) = Inr False"
    by (simp add: check_consensus_def example_jury_def len)
  have ck4: "check_consensus ?self ?T4 (int (length ?ags)) = Inr False"
    by (simp add: check_consensus_def example_jury_def len)
  \<comment> \<open>the initial ballot\<close>
  let ?iv = "initial_vote ?O ?ags (jury_case_summary empty_case) (jury_evidence empty_case)
               (jury_charges empty_case) (jury_verdict_options empty_case) ?w0"
  let ?w1 = "snd ?iv"
  have iv: "?iv = (Inr ?T3, ?w1)" using ivf[of ?w0] by (intro fst_collapse) (simp add: cx)
  have ne3: "?T3 \<noteq> []" and ne4: "?T4 \<noteq> []" by simp_all
  from jury_execute_step[OF va iv ck3 ne3]
  have e0: "jury_execute ?O ?self ?ags empty_case ?w0 =
              deliberation_rounds ?O ?self ?ags [] ?opts (Suc (Suc 0)) 1 ?T3 [?T3] [] ?w1"
    by (simp add: cx mr)
  \<comment> \<open>round 1\<close>
  let ?w2 = "snd (discussion_round ?O ?ags ?T3 [] 1 ?w1)"
  let ?w3 = "snd (revote ?O ?ags ?args ?opts ?w2)"
  have d1: "discussion_round ?O ?ags ?T3 [] 1 ?w1 = (?args, ?w2)"
    using drf by (rule fst_collapse)
  have r1: "revote ?O ?ags ?args ?opts ?w2 = (Inr ?T4, ?w3)"
    using rvf by (rule fst_collapse)
  from deliberation_step[OF d1 r1 ck4 ne4, of "Suc 0" "[?T3]" "[]"]
  have e1: "deliberation_rounds ?O ?self ?ags [] ?opts (Suc (Suc 0)) 1 ?T3 [?T3] [] ?w1 =
              deliberation_rounds ?O ?self ?ags [] ?opts (Suc 0) 2 ?T4 [?T3, ?T4] ?args ?w3"
    by simp
  \<comment> \<open>round 2\<close>
  let ?w4 = "snd (discussion_round ?O ?ags ?T4 [] 2 ?w3)"
  let ?w5 = "snd (revote ?O ?ags ?args ?opts ?w4)"
  have d2: "discussion_round ?O ?ags ?T4 [] 2 ?w3 = (?args, ?w4)"
    using drf by (rule fst_collapse)
  have r2: "revote ?O ?ags ?args ?opts ?w4 = (Inr ?T4, ?w5)"
    using rvf by (rule fst_collapse)
  from deliberation_step[OF d2 r2 ck4 ne4, of 0 "[?T3, ?T4]" ?args]
  have e2: "deliberation_rounds ?O ?self ?ags [] ?opts (Suc 0) 2 ?T4 [?T3, ?T4] ?args ?w3 =
              deliberation_rounds ?O ?self ?ags [] ?opts 0 3 ?T4 [?T3, ?T4, ?T4] (?args @ ?args) ?w5"
    by simp
  \<comment> \<open>no round is left: the jury is hung\<close>
  have e3: "deliberation_rounds ?O ?self ?ags [] ?opts 0 3 ?T4 [?T3, ?T4, ?T4] (?args @ ?args) ?w5
              = (Inr ?V, ?w5)"
    by (simp add: example_jury_def find_holdouts_def)
  from e0 e1 e2 e3 have run: "jury_execute ?O ?self ?ags empty_case ?w0 = (Inr ?V, ?w5)"
    by (simp only:)
  have ka: "take 5 (?args @ ?args) = [''j01: VOTE: Guilty'', ''j02: VOTE: Guilty'',
                             ''j03: VOTE: Guilty'', ''j04: VOTE: Not Guilty'',
                             ''j05: VOTE: Not Guilty'']"
    by (simp add: six_names_def)
  note T = jury_trajectory_length[OF m run]
  from T have l: "int (length (vote_trajectory ?V)) = rounds_taken ?V + 1" by blast
  from T have tl: "\<forall>i < length (vote_trajectory ?V).
            fst (tally_after_round ?O ?ags (jury_case_summary empty_case)
                   (jury_evidence empty_case) (jury_charges empty_case)
                   (jury_verdict_options empty_case) ?w0 i)
              = Inr (vote_trajectory ?V ! i)" by blast
  have "fst (tally_after_round ?O ?ags (jury_case_summary empty_case)
                   (jury_evidence empty_case) (jury_charges empty_case)
                   (jury_verdict_options empty_case) ?w0 0) = Inr (vote_trajectory ?V ! 0)"
    by (rule tl[rule_format]) simp
  hence t0: "fst (tally_after_round ?O ?ags [] [] [] ?opts ?w0 0) = Inr ?T3"
    by (simp add: cx del: tally_after_round.simps)
  have "fst (tally_after_round ?O ?ags (jury_case_summary empty_case)
                   (jury_evidence empty_case) (jury_charges empty_case)
                   (jury_verdict_options empty_case) ?w0 1) = Inr (vote_trajectory ?V ! 1)"
    by (rule tl[rule_format]) simp
  hence t1: "fst (tally_after_round ?O ?ags [] [] [] ?opts ?w0 1) = Inr ?T4"
    by (simp add: cx del: tally_after_round.simps)
  have "fst (tally_after_round ?O ?ags (jury_case_summary empty_case)
                   (jury_evidence empty_case) (jury_charges empty_case)
                   (jury_verdict_options empty_case) ?w0 2) = Inr (vote_trajectory ?V ! 2)"
    by (rule tl[rule_format]) simp
  hence t2: "fst (tally_after_round ?O ?ags [] [] [] ?opts ?w0 2) = Inr ?T4"
    by (simp add: cx del: tally_after_round.simps)
  from run ka have r: "fst (jury_execute ?O ?self ?ags empty_case ?w0) =
          Inr \<lparr>verdict = ''Hung Jury'', final_vote_counts = ?T4, rounds_taken = 2,
             consensus_reached = False, vote_trajectory = [?T3, ?T4, ?T4],
             key_arguments = [''j01: VOTE: Guilty'', ''j02: VOTE: Guilty'',
                             ''j03: VOTE: Guilty'', ''j04: VOTE: Not Guilty'',
                             ''j05: VOTE: Not Guilty''], holdouts = []\<rparr>"
    by simp
  from l have l': "int (length [?T3, ?T4, ?T4]) = 2 + 1" by simp
  from m r l' t0 t1 t2 show ?thesis by (intro conjI)
qed


end
